theory Spec2Isabelle
  imports Complex_Main "HOL-Library.Word"
begin

section \<open>LuminaJournal: audio utilities, Gemini service and journal state\<close>

text \<open>
  A shallow embedding of the TypeScript sources of LuminaJournal:
  \<^item> the audio utilities \<open>base64ToUint8Array\<close>, \<open>createWavHeader\<close>, \<open>writeString\<close> and
    \<open>pcmToWavBlob\<close>;
  \<^item> the Gemini service functions \<open>analyzeJournalForVideo\<close>, \<open>analyzeLifeProfile\<close>,
    \<open>generateCinematicMemory\<close> and \<open>suggestTags\<close> (\<open>services/geminiService.ts\<close>);
  \<^item> the import normalisation of \<open>handleImport\<close> and \<open>toggleSelection\<close> of the \<open>App\<close>
    component.

  Conventions. A JavaScript string is the list of its UTF-16 code units (\<open>16 word\<close>), so
  \<open>length\<close> is the \<open>length\<close> property. A byte is an \<open>8 word\<close>. An exception is a value
  \<open>Inl e\<close> of the sum type \<open>error + 'a\<close>; \<open>andThen\<close> sequences two steps and stops at the
  first exception. JavaScript numbers are IEEE doubles: a number is the real it denotes,
  and the result of every addition, multiplication and division is rounded to the
  nearest double by \<open>fl\<close> (below).
  The built-in functions of the platform that the sources call (\<open>atob\<close>, \<open>DataView\<close>,
  \<open>substring\<close>, \<open>split\<close>, \<open>charCodeAt\<close>) are modelled from their standards: ECMA-262 for
  the language built-ins and the WHATWG "forgiving-base64 decode" algorithm for \<open>atob\<close>.
\<close>

subsection \<open>Values and exceptions\<close>

type_synonym byte = "8 word"
type_synonym jsstring = "16 word list"
type_synonym view = "byte list"

datatype error = RangeError | InvalidCharacterError | TypeError | Error string

definition andThen :: "error + 'a \<Rightarrow> ('a \<Rightarrow> error + 'b) \<Rightarrow> error + 'b" where
  "andThen m f = (case m of Inl e \<Rightarrow> Inl e | Inr x \<Rightarrow> f x)"

text \<open>A string literal of the sources, as code units.\<close>

definition js :: "string \<Rightarrow> jsstring" where
  "js s = map (\<lambda>c. of_nat (of_char c)) s"

subsection \<open>Double arithmetic\<close>

text \<open>
  \<open>fl x\<close> is the double nearest to the real \<open>x\<close>: with \<open>2^e \<le> |x| < 2^(e+1)\<close>, the doubles
  around \<open>x\<close> are the multiples of \<open>2^(e-52)\<close> (53 significant bits), and \<open>x\<close> is rounded to the
  nearest of them, a tie going to the even multiple (\<open>rne\<close>). The exponent range of a
  double is not modelled. No non-zero value that \<open>createWavHeader\<close> computes from integers
  is below \<open>1/8\<close>, so nothing underflows. A result of magnitude \<open>2^1024\<close> or more is an
  infinity for the program (a NaN once multiplied by 0), which \<open>setUint16\<close> and \<open>setUint32\<close>
  store as 0; here it is a real of that magnitude, rounded to a multiple of \<open>2^32\<close> and
  stored as 0 as well (lemma \<open>fl_huge\<close>), so the bytes written are the same. A parameter
  of the program is itself a double; every integer of magnitude up to \<open>2^53\<close> is one.
\<close>

definition rne :: "real \<Rightarrow> int" where
  "rne q =
     (let f = \<lfloor>q\<rfloor>; d = q - of_int f
      in if d < 1 / 2 then f
         else if 1 / 2 < d then f + 1
         else if even f then f else f + 1)"

definition fl :: "real \<Rightarrow> real" where
  "fl x =
     (if x = 0 then 0
      else (let e = \<lfloor>log 2 \<bar>x\<bar>\<rfloor>; u = 2 powr (of_int e - 52)
            in of_int (rne (x / u)) * u))"

subsection \<open>ECMA-262 number conversions and string built-ins\<close>

text \<open>
  \<open>ToInteger\<close> truncates towards zero; \<open>ToUint8\<close>, \<open>ToUint16\<close> and \<open>ToUint32\<close> reduce the
  truncated value modulo \<open>2^8\<close>, \<open>2^16\<close> and \<open>2^32\<close>.
\<close>

definition ToInteger :: "real \<Rightarrow> int" where
  "ToInteger q = (if q < 0 then \<lceil>q\<rceil> else \<lfloor>q\<rfloor>)"

definition ToUint8 :: "real \<Rightarrow> nat" where
  "ToUint8 q = nat (ToInteger q mod 2 ^ 8)"

definition ToUint16 :: "real \<Rightarrow> nat" where
  "ToUint16 q = nat (ToInteger q mod 2 ^ 16)"

definition ToUint32 :: "real \<Rightarrow> nat" where
  "ToUint32 q = nat (ToInteger q mod 2 ^ 32)"

text \<open>
  \<open>s.charCodeAt(i)\<close>: the code unit at \<open>i\<close>. Outside the string JavaScript gives \<open>NaN\<close>,
  which every conversion used here sends to \<open>0\<close>; both loops below stay inside the string.
\<close>

definition charCodeAt :: "jsstring \<Rightarrow> nat \<Rightarrow> real" where
  "charCodeAt s i = (if i < length s then of_nat (unat (s ! i)) else 0)"

text \<open>\<open>s.substring(start, end)\<close> for non-negative integer arguments: both are clamped to
  the length and swapped when out of order.\<close>

definition substring :: "jsstring \<Rightarrow> nat \<Rightarrow> nat \<Rightarrow> jsstring" where
  "substring s start fin =
     (let len = length s;
          finalStart = min start len;
          finalEnd = min fin len;
          from = min finalStart finalEnd;
          to = max finalStart finalEnd
      in take (to - from) (drop from s))"

text \<open>\<open>s.split(',')[1]\<close>: the piece between the first and the second comma (code unit
  44), \<open>undefined\<close> (\<open>None\<close>) when the string has no comma.\<close>

definition split_comma_1 :: "jsstring \<Rightarrow> jsstring option" where
  "split_comma_1 s =
     (case dropWhile (\<lambda>c. c \<noteq> 44) s of
        [] \<Rightarrow> None
      | c # rest \<Rightarrow> Some (takeWhile (\<lambda>c. c \<noteq> 44) rest))"

subsection \<open>DataView writes\<close>

text \<open>
  \<open>NumericToRawBytes k n\<close> are the \<open>k\<close> bytes of \<open>n\<close>, least significant first.
  \<open>SetViewValue\<close> throws a \<open>RangeError\<close> when the write would pass the end of the buffer and
  stores the bytes otherwise, reversed for a big-endian write.
\<close>

fun NumericToRawBytes :: "nat \<Rightarrow> nat \<Rightarrow> byte list" where
  "NumericToRawBytes 0 n = []"
| "NumericToRawBytes (Suc k) n = of_nat (n mod 256) # NumericToRawBytes k (n div 256)"

definition SetViewValue :: "view \<Rightarrow> nat \<Rightarrow> bool \<Rightarrow> byte list \<Rightarrow> error + view" where
  "SetViewValue v off littleEndian raw =
     (if off + length raw > length v then Inl RangeError
      else Inr (take off v @ (if littleEndian then raw else rev raw) @ drop (off + length raw) v))"

definition setUint8 :: "view \<Rightarrow> nat \<Rightarrow> real \<Rightarrow> error + view" where
  "setUint8 v off x = SetViewValue v off False (NumericToRawBytes 1 (ToUint8 x))"

definition setUint16 :: "view \<Rightarrow> nat \<Rightarrow> real \<Rightarrow> bool \<Rightarrow> error + view" where
  "setUint16 v off x littleEndian =
     SetViewValue v off littleEndian (NumericToRawBytes 2 (ToUint16 x))"

definition setUint32 :: "view \<Rightarrow> nat \<Rightarrow> real \<Rightarrow> bool \<Rightarrow> error + view" where
  "setUint32 v off x littleEndian =
     SetViewValue v off littleEndian (NumericToRawBytes 4 (ToUint32 x))"

subsection \<open>atob: forgiving-base64 decode\<close>

text \<open>
  \<open>atob\<close> is a built-in of the browser. Its algorithm (WHATWG "forgiving-base64 decode"):
  \<^enum> remove all ASCII whitespace (TAB, LF, FF, CR, SPACE) from the data;
  \<^enum> if the length is now a multiple of 4 and the data ends with one or two \<open>=\<close>
    (code unit 61), remove them;
  \<^enum> if the length leaves remainder 1 when divided by 4, fail;
  \<^enum> if a code unit is not in \<open>[A-Za-z0-9+/]\<close>, fail;
  \<^enum> append the 6 bits of each character to a bit buffer, emitting three bytes every
    24 bits; a final buffer of 12 bits gives one byte (the last 4 bits are discarded),
    one of 18 bits gives two bytes (the last 2 bits are discarded).
  A failure is the \<open>InvalidCharacterError\<close> exception; the result is the string whose code
  units are the decoded bytes. The standard counts code points in steps 2 and 3; a string
  where that differs from the number of code units has a surrogate and fails either way.
\<close>

definition is_ascii_whitespace :: "16 word \<Rightarrow> bool" where
  "is_ascii_whitespace c = (c = 9 \<or> c = 10 \<or> c = 12 \<or> c = 13 \<or> c = 32)"

definition is_base64_char :: "16 word \<Rightarrow> bool" where
  "is_base64_char c =
     (let n = unat c
      in (65 \<le> n \<and> n \<le> 90) \<or> (97 \<le> n \<and> n \<le> 122) \<or> (48 \<le> n \<and> n \<le> 57)
         \<or> n = 43 \<or> n = 47)"

text \<open>The position of a character in the alphabet \<open>A-Z a-z 0-9 + /\<close> (only used on
  characters that passed step 4).\<close>

definition base64_index :: "16 word \<Rightarrow> nat" where
  "base64_index c =
     (let n = unat c
      in if 65 \<le> n \<and> n \<le> 90 then n - 65
         else if 97 \<le> n \<and> n \<le> 122 then n - 71
         else if 48 \<le> n \<and> n \<le> 57 then n + 4
         else if n = 43 then 62
         else 63)"

definition remove_padding :: "jsstring \<Rightarrow> jsstring" where
  "remove_padding d =
     (if 2 \<le> length d \<and> last d = 61 \<and> last (butlast d) = 61 then butlast (butlast d)
      else if 1 \<le> length d \<and> last d = 61 then butlast d
      else d)"

fun decode_loop :: "jsstring \<Rightarrow> nat \<Rightarrow> nat \<Rightarrow> byte list \<Rightarrow> byte list" where
  "decode_loop [] buffer nbits output =
     (if nbits = 12 then output @ [of_nat (buffer div 16)]
      else if nbits = 18
        then output @ [of_nat (buffer div 4 div 256), of_nat (buffer div 4 mod 256)]
      else output)"
| "decode_loop (c # cs) buffer nbits output =
     (if nbits + 6 = 24
      then decode_loop cs 0 0
             (output @ [of_nat ((buffer * 64 + base64_index c) div 256 div 256),
                        of_nat ((buffer * 64 + base64_index c) div 256 mod 256),
                        of_nat ((buffer * 64 + base64_index c) mod 256)])
      else decode_loop cs (buffer * 64 + base64_index c) (nbits + 6) output)"

definition forgiving_base64_decode :: "jsstring \<Rightarrow> byte list option" where
  "forgiving_base64_decode data =
     (let data1 = filter (\<lambda>c. \<not> is_ascii_whitespace c) data;
          data2 = (if length data1 mod 4 = 0 then remove_padding data1 else data1)
      in if length data2 mod 4 = 1 then None
         else if \<not> list_all is_base64_char data2 then None
         else Some (decode_loop data2 0 0 []))"

definition atob :: "jsstring \<Rightarrow> error + jsstring" where
  "atob data =
     (case forgiving_base64_decode data of
        None \<Rightarrow> Inl InvalidCharacterError
      | Some bytes \<Rightarrow> Inr (map ucast bytes))"

subsection \<open>The audio utilities\<close>

text \<open>
  \<open>base64ToUint8Array\<close>: \<open>atob\<close>, then a loop storing \<open>charCodeAt(i)\<close> into a fresh
  \<open>Uint8Array\<close> of the string's length (a store converts with \<open>ToUint8\<close>). The function has
  no validation of its own: it throws exactly when \<open>atob\<close> does.
\<close>

function base64ToUint8Array_loop :: "nat \<Rightarrow> byte list \<Rightarrow> jsstring \<Rightarrow> byte list" where
  "base64ToUint8Array_loop i bytes binaryString =
     (if i < length binaryString
      then base64ToUint8Array_loop (i + 1)
             (bytes[i := of_nat (ToUint8 (charCodeAt binaryString i))]) binaryString
      else bytes)"
  by pat_completeness auto
termination
  by (relation "measure (\<lambda>(i, bytes, binaryString). length binaryString - i)") auto

declare base64ToUint8Array_loop.simps [simp del]

definition base64ToUint8Array :: "jsstring \<Rightarrow> error + byte list" where
  "base64ToUint8Array base64 =
     andThen (atob base64) (\<lambda>binaryString.
       let len = length binaryString; bytes = replicate len 0
       in Inr (base64ToUint8Array_loop 0 bytes binaryString))"

text \<open>\<open>writeString\<close>: one \<open>setUint8\<close> per character, at \<open>offset + i\<close>.\<close>

function writeString_loop :: "nat \<Rightarrow> view \<Rightarrow> nat \<Rightarrow> jsstring \<Rightarrow> error + view" where
  "writeString_loop i v offset s =
     (if i < length s
      then andThen (setUint8 v (offset + i) (charCodeAt s i))
             (\<lambda>v'. writeString_loop (i + 1) v' offset s)
      else Inr v)"
  by pat_completeness auto
termination
  by (relation "measure (\<lambda>(i, v, offset, s). length s - i)") auto

declare writeString_loop.simps [simp del]

definition writeString :: "view \<Rightarrow> nat \<Rightarrow> jsstring \<Rightarrow> error + view" where
  "writeString v offset s = writeString_loop 0 v offset s"

text \<open>
  \<open>createWavHeader\<close>: thirteen writes into a zeroed buffer of 44 bytes, in the order of
  the source. The parameters are JavaScript numbers; they are taken as integers here.
  Each arithmetic operation of the source is the exact operation followed by \<open>fl\<close>:
  \<open>36 + dataLength\<close>, the product \<open>sampleRate * numChannels\<close>, the quotient
  \<open>bitsPerSample / 8\<close> and the products with it. There is no check of any parameter.
\<close>

definition createWavHeader :: "int \<Rightarrow> int \<Rightarrow> int \<Rightarrow> int \<Rightarrow> error + byte list" where
  "createWavHeader dataLength sampleRate numChannels bitsPerSample =
     andThen (writeString (replicate 44 0) 0 (js ''RIFF'')) (\<lambda>v.
     andThen (setUint32 v 4 (fl (36 + of_int dataLength)) True) (\<lambda>v.
     andThen (writeString v 8 (js ''WAVE'')) (\<lambda>v.
     andThen (writeString v 12 (js ''fmt '')) (\<lambda>v.
     andThen (setUint32 v 16 16 True) (\<lambda>v.
     andThen (setUint16 v 20 1 True) (\<lambda>v.
     andThen (setUint16 v 22 (of_int numChannels) True) (\<lambda>v.
     andThen (setUint32 v 24 (of_int sampleRate) True) (\<lambda>v.
     andThen (setUint32 v 28
                (fl (fl (of_int sampleRate * of_int numChannels) * fl (of_int bitsPerSample / 8)))
                True) (\<lambda>v.
     andThen (setUint16 v 32 (fl (of_int numChannels * fl (of_int bitsPerSample / 8))) True) (\<lambda>v.
     andThen (setUint16 v 34 (of_int bitsPerSample) True) (\<lambda>v.
     andThen (writeString v 36 (js ''data'')) (\<lambda>v.
     andThen (setUint32 v 40 (of_int dataLength) True) (\<lambda>v.
     Inr v)))))))))))))"

text \<open>
  \<open>pcmToWavBlob\<close>: decode, build the header for one channel of 16 bits, and make a
  \<open>Blob\<close> of the two parts; its bytes are the header followed by the decoded data. (The
  source gives \<open>sampleRate\<close> the default 24000.)
\<close>

record blob =
  blob_bytes :: "byte list"
  blob_type :: string

definition pcmToWavBlob :: "jsstring \<Rightarrow> int \<Rightarrow> error + blob" where
  "pcmToWavBlob base64Data sampleRate =
     andThen (base64ToUint8Array base64Data) (\<lambda>pcmData.
     andThen (createWavHeader (int (length pcmData)) sampleRate 1 16) (\<lambda>header.
     Inr \<lparr>blob_bytes = header @ pcmData, blob_type = ''audio/wav''\<rparr>))"

subsection \<open>Reading a header back\<close>

text \<open>
  The claims speak of the bytes at an offset and of the little-endian number they
  decode to. \<open>field h off n\<close> are the \<open>n\<close> bytes at \<open>off\<close>, \<open>le_value\<close> is their little-endian
  value, \<open>magic\<close> the bytes of an ASCII tag; \<open>readField\<close> and \<open>readBytes\<close> read from the result
  of \<open>createWavHeader\<close> (\<open>None\<close> if it threw).
\<close>

definition le_value :: "byte list \<Rightarrow> nat" where
  "le_value bs = foldr (\<lambda>b n. unat b + 256 * n) bs 0"

definition field :: "byte list \<Rightarrow> nat \<Rightarrow> nat \<Rightarrow> byte list" where
  "field h off n = take n (drop off h)"

definition magic :: "string \<Rightarrow> byte list" where
  "magic s = map (\<lambda>c. of_nat (of_char c)) s"

definition readField :: "error + byte list \<Rightarrow> nat \<Rightarrow> nat \<Rightarrow> nat option" where
  "readField r off n = (case r of Inl e \<Rightarrow> None | Inr h \<Rightarrow> Some (le_value (field h off n)))"

definition readBytes :: "error + byte list \<Rightarrow> nat \<Rightarrow> nat \<Rightarrow> byte list option" where
  "readBytes r off n = (case r of Inl e \<Rightarrow> None | Inr h \<Rightarrow> Some (field h off n))"

subsection \<open>The reference encoder of the specification (RFC 4648)\<close>

text \<open>
  The specification's round-trip property is stated against "the standard base64
  reference encoder", which is not part of the sources. This is that encoder, following
  RFC 4648, section 4: each group of three bytes (24 bits) becomes four characters; a
  final group of one byte (8 bits, padded with zero bits to 12) becomes two characters
  and \<open>==\<close>; a final group of two bytes (16 bits, padded to 18) becomes three characters
  and \<open>=\<close>. \<open>encode_data\<close> gives the characters, \<open>encode_pad\<close> the padding.
\<close>

definition base64_char :: "nat \<Rightarrow> 16 word" where
  "base64_char n =
     of_nat (if n < 26 then n + 65
             else if n < 52 then n + 71
             else if n < 62 then n - 4
             else if n = 62 then 43
             else 47)"

fun encode_data :: "byte list \<Rightarrow> jsstring" where
  "encode_data [] = []"
| "encode_data [a] =
     (let v = unat a * 16
      in [base64_char (v div 64), base64_char (v mod 64)])"
| "encode_data [a, b] =
     (let v = (unat a * 256 + unat b) * 4
      in [base64_char (v div 64 div 64), base64_char (v div 64 mod 64), base64_char (v mod 64)])"
| "encode_data (a # b # c # rest) =
     (let v = (unat a * 256 + unat b) * 256 + unat c
      in base64_char (v div 64 div 64 div 64) # base64_char (v div 64 div 64 mod 64) #
         base64_char (v div 64 mod 64) # base64_char (v mod 64) # encode_data rest)"

fun encode_pad :: "byte list \<Rightarrow> jsstring" where
  "encode_pad [] = []"
| "encode_pad [a] = [61, 61]"
| "encode_pad [a, b] = [61]"
| "encode_pad (a # b # c # rest) = encode_pad rest"

definition encodeAsBase64 :: "byte list \<Rightarrow> jsstring" where
  "encodeAsBase64 bs = encode_data bs @ encode_pad bs"

subsection \<open>The Gemini service\<close>

text \<open>
  The remote provider is a parameter: \<open>generateContent\<close> maps a request to a response or
  to an exception, and \<open>JSON_parse\<close> is the platform's \<open>JSON.parse\<close>. \<open>response.text\<close> may be
  \<open>undefined\<close> (\<open>None\<close>). The fixed text of the two prompt templates is a constructor of
  \<open>prompt_template\<close>; the entries text interpolated into it is kept.
\<close>

datatype json =
    JNull
  | JBool bool
  | JNum real
  | JStr jsstring
  | JArr "json list"
  | JObj "(jsstring \<times> json) list"

datatype prompt_template = VideoAnalysisPrompt | LifeProfilePrompt

datatype part = InlineData string jsstring | TextPart jsstring

datatype contents = Template prompt_template jsstring | Parts "part list"

record content_request =
  cr_model :: string
  cr_contents :: contents

record content_response =
  response_text :: "jsstring option"

definition analyzeJournalForVideo_request :: "jsstring \<Rightarrow> content_request" where
  "analyzeJournalForVideo_request entriesText =
     \<lparr>cr_model = ''gemini-2.5-flash'',
      cr_contents = Template VideoAnalysisPrompt (substring entriesText 0 5000)\<rparr>"

definition analyzeJournalForVideo ::
  "(content_request \<Rightarrow> error + content_response) \<Rightarrow> (jsstring \<Rightarrow> error + json) \<Rightarrow>
   jsstring \<Rightarrow> error + json" where
  "analyzeJournalForVideo generateContent JSON_parse entriesText =
     andThen (generateContent (analyzeJournalForVideo_request entriesText))
       (\<lambda>response.
          case response_text response of
            None \<Rightarrow> Inl (Error ''No response from Gemini'')
          | Some t \<Rightarrow> if t = [] then Inl (Error ''No response from Gemini'') else JSON_parse t)"

definition analyzeLifeProfile_request :: "jsstring \<Rightarrow> content_request" where
  "analyzeLifeProfile_request entriesText =
     \<lparr>cr_model = ''gemini-2.5-flash'',
      cr_contents = Template LifeProfilePrompt (substring entriesText 0 10000)\<rparr>"

definition analyzeLifeProfile ::
  "(content_request \<Rightarrow> error + content_response) \<Rightarrow> (jsstring \<Rightarrow> error + json) \<Rightarrow>
   jsstring \<Rightarrow> error + json" where
  "analyzeLifeProfile generateContent JSON_parse entriesText =
     andThen (generateContent (analyzeLifeProfile_request entriesText))
       (\<lambda>response.
          case response_text response of
            None \<Rightarrow> Inl (Error ''No response from Gemini'')
          | Some t \<Rightarrow> if t = [] then Inl (Error ''No response from Gemini'') else JSON_parse t)"

text \<open>
  \<open>suggestTags\<close>: the request holds the image part (when \<open>imageBase64\<close> is a non-empty
  string; the data after the first comma when there is one), then the prompt text; the
  result is the parsed response text, or the empty array when the text is absent or empty.
\<close>

definition suggestTags_request :: "jsstring \<Rightarrow> jsstring option \<Rightarrow> content_request" where
  "suggestTags_request content imageBase64 =
     (let hasImage = (case imageBase64 of None \<Rightarrow> False | Some img \<Rightarrow> img \<noteq> []);
          parts0 = (case imageBase64 of
                      None \<Rightarrow> []
                    | Some img \<Rightarrow>
                        if img = [] then []
                        else [InlineData ''image/jpeg''
                                (case split_comma_1 img of None \<Rightarrow> img | Some p \<Rightarrow> p)]);
          prompt0 = js ''Generate 3-5 relevant short tags for this journal entry.'';
          prompt1 = (if content \<noteq> [] then prompt0 @ js '' Text: '' @ [34] @ content @ [34]
                     else prompt0);
          prompt2 = (if hasImage then prompt1 @ js '' Analyze the image visual content for tags.''
                     else prompt1);
          parts = parts0 @ [TextPart prompt2]
      in \<lparr>cr_model = ''gemini-2.5-flash'', cr_contents = Parts parts\<rparr>)"

definition suggestTags ::
  "(content_request \<Rightarrow> error + content_response) \<Rightarrow> (jsstring \<Rightarrow> error + json) \<Rightarrow>
   jsstring \<Rightarrow> jsstring option \<Rightarrow> error + json" where
  "suggestTags generateContent JSON_parse content imageBase64 =
     andThen (generateContent (suggestTags_request content imageBase64))
       (\<lambda>response.
          case response_text response of
            None \<Rightarrow> Inr (JArr [])
          | Some t \<Rightarrow> if t = [] then Inr (JArr []) else JSON_parse t)"

text \<open>Providers and a parser to run the functions on: a response without text, a response
  with the empty text, a provider that has no text for one request and the text \<open>[]\<close> for
  every other one, and a parser that rejects everything.\<close>

definition no_text_provider :: "content_request \<Rightarrow> error + content_response" where
  "no_text_provider request = Inr \<lparr>response_text = None\<rparr>"

definition empty_text_provider :: "content_request \<Rightarrow> error + content_response" where
  "empty_text_provider request = Inr \<lparr>response_text = Some []\<rparr>"

definition text_unless ::
  "content_request \<Rightarrow> jsstring option \<Rightarrow> content_request \<Rightarrow> error + content_response" where
  "text_unless silent t request =
     (if request = silent then Inr \<lparr>response_text = t\<rparr>
      else Inr \<lparr>response_text = Some (js ''[]'')\<rparr>)"

definition parse_nothing :: "jsstring \<Rightarrow> error + json" where
  "parse_nothing s = Inl (Error ''SyntaxError'')"

text \<open>
  \<open>generateCinematicMemory\<close>, up to its call of \<open>ai.models.generateVideos\<close>: \<open>cleanPrompt\<close>
  is the local constant of that name and \<open>generateVideos_request\<close> the argument of the
  call, in the image-to-video branch (\<open>base64Image\<close> a non-empty string) and in the
  text-to-video branch. The polling and the download that follow do not touch the
  request.
\<close>

record video_request =
  vr_model :: string
  vr_prompt :: jsstring
  vr_image :: "(jsstring \<times> string) option"
  vr_numberOfVideos :: nat
  vr_resolution :: string
  vr_aspectRatio :: string

definition cleanPrompt :: "jsstring \<Rightarrow> jsstring" where
  "cleanPrompt prompt = (if length prompt > 400 then substring prompt 0 400 else prompt)"

definition generateVideos_request :: "jsstring \<Rightarrow> jsstring option \<Rightarrow> video_request" where
  "generateVideos_request prompt base64Image =
     (case base64Image of
        Some img \<Rightarrow>
          if img \<noteq> [] then
            \<lparr>vr_model = ''veo-3.1-fast-generate-preview'',
             vr_prompt = cleanPrompt prompt,
             vr_image = Some ((case split_comma_1 img of
                                 None \<Rightarrow> img
                               | Some p \<Rightarrow> if p = [] then img else p), ''image/jpeg''),
             vr_numberOfVideos = 1, vr_resolution = ''720p'', vr_aspectRatio = ''16:9''\<rparr>
          else
            \<lparr>vr_model = ''veo-3.1-fast-generate-preview'',
             vr_prompt = cleanPrompt prompt,
             vr_image = None,
             vr_numberOfVideos = 1, vr_resolution = ''720p'', vr_aspectRatio = ''16:9''\<rparr>
      | None \<Rightarrow>
          \<lparr>vr_model = ''veo-3.1-fast-generate-preview'',
           vr_prompt = cleanPrompt prompt,
           vr_image = None,
           vr_numberOfVideos = 1, vr_resolution = ''720p'', vr_aspectRatio = ''16:9''\<rparr>)"

subsection \<open>The App component: import and selection\<close>

text \<open>
  A raw entry is a value of \<open>JSON.parse\<close> (\<open>JObj\<close> lists the properties of an object, each
  key once). \<open>truthy\<close> is JavaScript's truthiness
  (\<open>undefined\<close> is \<open>None\<close>), \<open>or_else a b\<close> is \<open>a || b\<close>, and \<open>get_prop raw k\<close> reads property
  \<open>k\<close>: the value in an object, \<open>undefined\<close> for the names read here on an array, string,
  number or boolean. Reading a property of \<open>null\<close> throws a \<open>TypeError\<close>, as does calling
  \<open>.map\<close> on a truthy \<open>photos\<close> that is not an array; \<open>handleImport\<close> catches both.
  \<open>formatEntry\<close> is the function mapped over the imported entries; \<open>uuid\<close> is the value of
  \<open>crypto.randomUUID()\<close> and \<open>now\<close> that of \<open>new Date().toISOString()\<close>.
\<close>

fun truthy :: "json option \<Rightarrow> bool" where
  "truthy None = False"
| "truthy (Some JNull) = False"
| "truthy (Some (JBool b)) = b"
| "truthy (Some (JNum x)) = (x \<noteq> 0)"
| "truthy (Some (JStr s)) = (s \<noteq> [])"
| "truthy (Some (JArr xs)) = True"
| "truthy (Some (JObj kvs)) = True"

definition or_else :: "json option \<Rightarrow> json option \<Rightarrow> json option" where
  "or_else a b = (if truthy a then a else b)"

fun get_prop :: "json \<Rightarrow> string \<Rightarrow> json option" where
  "get_prop (JObj kvs) k = map_of kvs (js k)"
| "get_prop j k = None"

record JournalEntry =
  entry_id :: jsstring
  entry_date :: json
  entry_content :: json
  entry_images :: "jsstring list"
  entry_mood :: "json option"
  entry_tags :: json

text \<open>The function mapped over \<open>raw.photos\<close>: \<open>typeof p === 'string' ? p : ''\<close>.\<close>

fun photo_string :: "json \<Rightarrow> jsstring" where
  "photo_string (JStr s) = s"
| "photo_string p = []"

definition formatEntry :: "jsstring \<Rightarrow> jsstring \<Rightarrow> json \<Rightarrow> error + JournalEntry" where
  "formatEntry uuid now raw =
     (case raw of
        JNull \<Rightarrow> Inl TypeError
      | _ \<Rightarrow>
        andThen
          (if truthy (get_prop raw ''photos'')
           then (case get_prop raw ''photos'' of
                   Some (JArr ps) \<Rightarrow> Inr (map photo_string ps)
                 | _ \<Rightarrow> Inl TypeError)
           else Inr [])
          (\<lambda>images.
             Inr \<lparr>entry_id = uuid,
                  entry_date =
                    (case or_else (or_else (get_prop raw ''date'') (get_prop raw ''creationDate''))
                            (Some (JStr now)) of
                       Some d \<Rightarrow> d | None \<Rightarrow> JStr now),
                  entry_content =
                    (case or_else (or_else (get_prop raw ''text'') (get_prop raw ''content''))
                            (Some (JStr [])) of
                       Some c \<Rightarrow> c | None \<Rightarrow> JStr []),
                  entry_images = images,
                  entry_mood = get_prop raw ''mood'',
                  entry_tags =
                    (case or_else (get_prop raw ''tags'') (Some (JArr [])) of
                       Some t \<Rightarrow> t | None \<Rightarrow> JArr [])\<rparr>))"

text \<open>The state of the component (\<open>useState\<close>); \<open>toggleSelection\<close> is one click, from the
  state of the current render to the next.\<close>

datatype AppView = TIMELINE | EDITOR | IMPORT | MTV | DETAIL | LIFE_CINEMA

record App =
  entries :: "JournalEntry list"
  view :: AppView
  selectedIds :: "jsstring list"
  isImporting :: bool
  isSelectionMode :: bool

definition toggleSelection :: "App \<Rightarrow> jsstring \<Rightarrow> App" where
  "toggleSelection app eid =
     (if eid \<in> set (selectedIds app)
      then app\<lparr>selectedIds := filter (\<lambda>sid. sid \<noteq> eid) (selectedIds app)\<rparr>
      else app\<lparr>selectedIds := selectedIds app @ [eid]\<rparr>)"

section \<open>Properties of the audio utilities\<close>

subsection \<open>Sequencing, conversions and DataView writes\<close>

lemma andThen_Inr: "andThen (Inr x) f = f x"
  by (simp add: andThen_def)

lemma andThen_Inl: "andThen (Inl e) f = Inl e"
  by (simp add: andThen_def)

lemma length_NumericToRawBytes: "length (NumericToRawBytes k n) = k"
  by (induction k arbitrary: n) simp_all

lemma NumericToRawBytes_2:
  "NumericToRawBytes 2 n = [of_nat (n mod 256), of_nat (n div 256 mod 256)]"
proof -
  have "(2::nat) = Suc (Suc 0)" by simp
  then show ?thesis by (simp only: NumericToRawBytes.simps)
qed

lemma NumericToRawBytes_4:
  "NumericToRawBytes 4 n =
     [of_nat (n mod 256), of_nat (n div 256 mod 256),
      of_nat (n div 256 div 256 mod 256), of_nat (n div 256 div 256 div 256 mod 256)]"
proof -
  have "(4::nat) = Suc (Suc (Suc (Suc 0)))" by simp
  then show ?thesis by (simp only: NumericToRawBytes.simps)
qed

lemma ToUint8_lt: "ToUint8 x < 256"
  by (simp add: ToUint8_def nat_less_iff)

lemma ToUint16_lt: "ToUint16 x < 2 ^ 16"
  by (simp add: ToUint16_def nat_less_iff)

lemma ToUint32_lt: "ToUint32 x < 2 ^ 32"
  by (simp add: ToUint32_def nat_less_iff)

lemma ToInteger_of_int: "ToInteger (of_int k) = k"
  by (simp add: ToInteger_def)

lemma ToInteger_of_nat: "ToInteger (of_nat n) = int n"
  using ToInteger_of_int [of "int n"] by simp

lemma ToUint16_of_int: "ToUint16 (of_int k) = nat (k mod 2 ^ 16)"
  by (simp only: ToUint16_def ToInteger_of_int)

lemma ToUint32_of_int: "ToUint32 (of_int k) = nat (k mod 2 ^ 32)"
  by (simp only: ToUint32_def ToInteger_of_int)


lemma ToUint32_16: "ToUint32 16 = 16"
  using ToUint32_of_int [of 16] by simp

lemma ToUint16_1: "ToUint16 1 = 1"
  using ToUint16_of_int [of 1] by simp

subsection \<open>Rounding to a double\<close>

lemma rne_of_int: "rne (of_int k) = k"
  by (simp add: rne_def)


text \<open>A value with at most 53 significant bits is a double: \<open>fl\<close> leaves it alone.\<close>

lemma fl_exact:
  assumes "\<bar>m\<bar> < 2 ^ 53"
  shows "fl (of_int m * 2 powr of_int j) = of_int m * 2 powr of_int j"
proof (cases "m = 0")
  case True
  then show ?thesis by (simp add: fl_def)
next
  case False
  define x :: real where "x = of_int m * 2 powr of_int j"
  have x0: "x \<noteq> 0" using False by (simp add: x_def)
  define e where "e = \<lfloor>log 2 \<bar>x\<bar>\<rfloor>"
  have ax: "\<bar>x\<bar> = of_int \<bar>m\<bar> * 2 powr of_int j"
    by (simp add: x_def abs_mult)
  have "of_int \<bar>m\<bar> < (2 :: real) ^ 53"
    using assms by (metis of_int_less_numeral_power_cancel_iff)
  then have "\<bar>x\<bar> < 2 powr 53 * 2 powr of_int j"
    unfolding ax by (simp add: powr_gt_zero)
  then have "\<bar>x\<bar> < 2 powr (of_int (53 + j))"
    by (simp add: powr_add)
  then have "log 2 \<bar>x\<bar> < of_int (53 + j)"
    using x0 by (simp add: log_less_iff)
  then have ele: "e \<le> 52 + j"
    unfolding e_def by linarith
  define k where "k = nat (52 + j - e)"
  have kk: "of_int j - (of_int e - 52) = real k"
    using ele by (simp add: k_def)
  have "x / 2 powr (of_int e - 52) = of_int m * 2 powr (of_int j - (of_int e - 52))"
    by (simp add: x_def powr_diff)
  also have "\<dots> = of_int (m * 2 ^ k)"
    unfolding kk by (simp add: powr_realpow)
  finally have q: "x / 2 powr (of_int e - 52) = of_int (m * 2 ^ k)" .
  have "fl x = of_int (rne (x / 2 powr (of_int e - 52))) * 2 powr (of_int e - 52)"
    using x0 by (simp add: fl_def Let_def e_def)
  also have "\<dots> = (x / 2 powr (of_int e - 52)) * 2 powr (of_int e - 52)"
    unfolding q rne_of_int ..
  also have "\<dots> = x"
    by simp
  finally show ?thesis
    unfolding x_def .
qed

lemma fl_of_int: "\<bar>m\<bar> < 2 ^ 53 \<Longrightarrow> fl (of_int m) = of_int m"
  using fl_exact [of m 0] by simp

lemma fl_eighths: "\<bar>m\<bar> < 2 ^ 53 \<Longrightarrow> fl (of_int m / 8) = of_int m / 8"
proof -
  assume "\<bar>m\<bar> < 2 ^ 53"
  from fl_exact [OF this, of "- 3"] show ?thesis
    by (simp add: powr_minus_divide)
qed

lemma fl_36_plus: "\<bar>36 + k\<bar> < 2 ^ 53 \<Longrightarrow> fl (36 + of_int k) = of_int (36 + k)"
  using fl_of_int [of "36 + k"] by simp

text \<open>A large value is rounded to a multiple of \<open>2^32\<close>, which both conversions store
  as 0.\<close>

lemma fl_huge:
  assumes "2 ^ 85 \<le> \<bar>x\<bar>"
  shows "ToUint32 (fl x) = 0 \<and> ToUint16 (fl x) = 0"
proof -
  have x0: "x \<noteq> 0" using assms by auto
  define e where "e = \<lfloor>log 2 \<bar>x\<bar>\<rfloor>"
  have "(2::real) powr 85 \<le> \<bar>x\<bar>"
    using assms by (simp add: powr_realpow [symmetric])
  then have "85 \<le> log 2 \<bar>x\<bar>"
    using x0 by (simp add: le_log_iff)
  then have e85: "85 \<le> e"
    unfolding e_def by linarith
  define n where "n = nat (e - 84)"
  have "(of_int e :: real) - 52 = real (32 + n)"
    using e85 by (simp add: n_def)
  then have "(2::real) powr (of_int e - 52) = 2 ^ (32 + n)"
    by (simp only: powr_realpow zero_less_numeral)
  then have u: "(2::real) powr (of_int e - 52) = of_int (2 ^ 32 * 2 ^ n)"
    by (simp add: power_add)
  have "fl x = of_int (rne (x / 2 powr (of_int e - 52))) * 2 powr (of_int e - 52)"
    using x0 by (simp add: fl_def Let_def e_def)
  then have f: "fl x = of_int (rne (x / 2 powr (of_int e - 52)) * 2 ^ n * 2 ^ 32)"
    unfolding u by simp
  have a: "ToUint32 (fl x) = 0"
    unfolding f ToUint32_of_int by simp
  have "rne (x / 2 powr (of_int e - 52)) * 2 ^ n * 2 ^ 32
      = (rne (x / 2 powr (of_int e - 52)) * 2 ^ n * 2 ^ 16) * 2 ^ 16"
    by simp
  then have b: "ToUint16 (fl x) = 0"
    unfolding f ToUint16_of_int by (simp only: mod_mult_self2_is_0)
  from a b show ?thesis ..
qed

text \<open>The two products of the header, when nothing is rounded.\<close>

lemma blockAlign_exact:
  assumes "\<bar>bits\<bar> < 2 ^ 53" "\<bar>ch * bits\<bar> < 2 ^ 53"
  shows "fl (of_int ch * fl (of_int bits / 8)) = of_int (ch * bits) / 8"
proof -
  have "fl (of_int ch * fl (of_int bits / 8)) = fl (of_int ch * (of_int bits / 8))"
    by (simp only: fl_eighths [OF assms(1)])
  also have "of_int ch * (of_int bits / 8) = (of_int (ch * bits) :: real) / 8"
    by simp
  also have "fl (of_int (ch * bits) / 8) = of_int (ch * bits) / 8"
    by (rule fl_eighths [OF assms(2)])
  finally show ?thesis .
qed

lemma byteRate_exact:
  assumes "\<bar>bits\<bar> < 2 ^ 53" "\<bar>sr * ch\<bar> < 2 ^ 53" "\<bar>sr * ch * bits\<bar> < 2 ^ 53"
  shows "fl (fl (of_int sr * of_int ch) * fl (of_int bits / 8)) = of_int (sr * ch * bits) / 8"
proof -
  have "fl (of_int sr * of_int ch) = (of_int (sr * ch) :: real)"
    using fl_of_int [OF assms(2)] by simp
  then have "fl (fl (of_int sr * of_int ch) * fl (of_int bits / 8))
      = fl (of_int (sr * ch) * fl (of_int bits / 8))"
    by (simp only:)
  also have "\<dots> = of_int (sr * ch * bits) / 8"
    by (rule blockAlign_exact [OF assms(1,3)])
  finally show ?thesis .
qed

text \<open>Truncation towards zero of a number of eighths.\<close>

lemma ToInteger_eighths: "ToInteger (of_int n / 8) = sgn n * (\<bar>n\<bar> div 8)"
proof (cases "n < 0")
  case False
  then have "ToInteger (of_int n / 8) = \<lfloor>(of_int n :: real) / of_int 8\<rfloor>"
    by (simp add: ToInteger_def)
  also have "\<dots> = n div 8"
    by (rule floor_divide_of_int_eq)
  finally show ?thesis
    using False by (cases "n = 0") simp_all
next
  case True
  then have "ToInteger (of_int n / 8) = \<lceil>(of_int n :: real) / of_int 8\<rceil>"
    by (simp add: ToInteger_def)
  also have "\<dots> = - (- n div 8)"
    by (rule ceiling_divide_eq_div)
  finally show ?thesis
    using True by simp
qed

text \<open>Storing the code of a character keeps its low byte.\<close>

lemma ToUint8_code_unit: "(of_nat (ToUint8 (real (unat (c :: 16 word)))) :: byte) = ucast c"
proof -
  have "ToUint8 (real (unat c)) = unat c mod 256"
    unfolding ToUint8_def ToInteger_of_nat by (simp add: nat_mod_distrib)
  then have "(of_nat (ToUint8 (real (unat c))) :: byte) = of_nat (unat c mod 256)"
    by (simp only:)
  also have "\<dots> = ucast c"
    by (simp add: word_unat_eq_iff unat_of_nat unsigned_ucast_eq take_bit_eq_mod)
  finally show ?thesis .
qed

lemma setUint8_ok:
  "off < length v \<Longrightarrow>
   setUint8 v off x = Inr (take off v @ [of_nat (ToUint8 x)] @ drop (off + 1) v)"
  using ToUint8_lt [of x] by (simp add: setUint8_def SetViewValue_def)

lemma setUint16_ok:
  "off + 2 \<le> length v \<Longrightarrow>
   setUint16 v off x True = Inr (take off v @ NumericToRawBytes 2 (ToUint16 x) @ drop (off + 2) v)"
  by (simp add: setUint16_def SetViewValue_def length_NumericToRawBytes)

lemma setUint32_ok:
  "off + 4 \<le> length v \<Longrightarrow>
   setUint32 v off x True = Inr (take off v @ NumericToRawBytes 4 (ToUint32 x) @ drop (off + 4) v)"
  by (simp add: setUint32_def SetViewValue_def length_NumericToRawBytes)

text \<open>\<open>writeString\<close> inside the buffer replaces \<open>length s\<close> bytes at \<open>offset\<close> by the low
  bytes of the characters and never throws.\<close>

lemma writeString_loop_ok:
  "offset + length s \<le> length v \<Longrightarrow> i \<le> length s \<Longrightarrow>
   writeString_loop i v offset s =
     Inr (take (offset + i) v @ map ucast (drop i s) @ drop (offset + length s) v)"
proof (induction i v offset s rule: writeString_loop.induct)
  case (1 i v offset s)
  show ?case
  proof (cases "i < length s")
    case False
    with "1.prems" have "i = length s" by simp
    then show ?thesis
      by (subst writeString_loop.simps) simp
  next
    case True
    let ?v' = "take (offset + i) v @ [ucast (s ! i)] @ drop (offset + i + 1) v"
    from True "1.prems" have lt: "offset + i < length v" by simp
    have cc: "charCodeAt s i = real (unat (s ! i))"
      using True unfolding charCodeAt_def by (simp only: if_True)
    have step: "setUint8 v (offset + i) (charCodeAt s i) = Inr ?v'"
      using lt setUint8_ok [of "offset + i" v "real (unat (s ! i))"]
      unfolding cc ToUint8_code_unit by simp
    have len: "length ?v' = length v" using lt by simp
    have ih: "writeString_loop (i + 1) ?v' offset s =
        Inr (take (offset + (i + 1)) ?v' @ map ucast (drop (i + 1) s) @ drop (offset + length s) ?v')"
      using "1.IH" [OF True, of ?v'] True "1.prems" len by simp
    have a: "take (offset + (i + 1)) ?v' = take (offset + i) v @ [ucast (s ! i)]"
      using lt by (simp add: min_def)
    from True obtain k where k: "length s = Suc (i + k)"
      using less_iff_Suc_add by blast
    have b: "drop (offset + length s) ?v' = drop (offset + length s) v"
      using lt by (simp add: min_def k ac_simps)
    have c: "drop i s = s ! i # drop (i + 1) s"
      using True by (simp add: Cons_nth_drop_Suc)
    have "writeString_loop i v offset s =
        andThen (setUint8 v (offset + i) (charCodeAt s i))
          (\<lambda>v'. writeString_loop (i + 1) v' offset s)"
      by (subst writeString_loop.simps) (simp only: True if_True)
    also have "\<dots> = writeString_loop (i + 1) ?v' offset s"
      by (simp only: step andThen_Inr)
    also note ih
    finally show ?thesis
      by (simp only: a b c) simp
  qed
qed

lemma writeString_ok:
  "offset + length s \<le> length v \<Longrightarrow>
   writeString v offset s = Inr (take offset v @ map ucast s @ drop (offset + length s) v)"
  using writeString_loop_ok [of offset s v 0] by (simp add: writeString_def)

lemma length_js: "length (js s) = length s"
  by (simp add: js_def)

lemma length_magic: "length (magic s) = length s"
  by (simp add: magic_def)

lemma of_char_mod_65536: "(of_char c :: nat) mod 65536 = of_char c"
proof -
  have "(of_char c :: nat) < 65536"
    using nat_of_char_less_256 [of c] by linarith
  then show ?thesis by (rule mod_less)
qed

lemma ucast_js: "map ucast (js s) = magic s"
  by (simp add: js_def magic_def unsigned_of_nat take_bit_eq_mod word_of_nat_eq_iff
      of_char_mod_65536)

subsection \<open>The bytes of the header\<close>

text \<open>All thirteen writes are inside the 44 bytes, so none throws, and the result is the
  concatenation of the thirteen fields.\<close>

lemma createWavHeader_bytes:
  "createWavHeader dataLength sampleRate numChannels bitsPerSample =
     Inr (magic ''RIFF'' @
          NumericToRawBytes 4 (ToUint32 (fl (36 + of_int dataLength))) @
          magic ''WAVE'' @
          magic ''fmt '' @
          NumericToRawBytes 4 (ToUint32 16) @
          NumericToRawBytes 2 (ToUint16 1) @
          NumericToRawBytes 2 (ToUint16 (of_int numChannels)) @
          NumericToRawBytes 4 (ToUint32 (of_int sampleRate)) @
          NumericToRawBytes 4 (ToUint32
             (fl (fl (of_int sampleRate * of_int numChannels) * fl (of_int bitsPerSample / 8)))) @
          NumericToRawBytes 2 (ToUint16
             (fl (of_int numChannels * fl (of_int bitsPerSample / 8)))) @
          NumericToRawBytes 2 (ToUint16 (of_int bitsPerSample)) @
          magic ''data'' @
          NumericToRawBytes 4 (ToUint32 (of_int dataLength)))"
  unfolding createWavHeader_def
  by (simp add: writeString_ok setUint32_ok setUint16_ok andThen_Inr
      length_NumericToRawBytes length_js length_magic ucast_js)

lemma length_createWavHeader:
  "\<exists>h. createWavHeader dataLength sampleRate numChannels bitsPerSample = Inr h \<and> length h = 44"
  by (simp add: createWavHeader_bytes length_NumericToRawBytes length_magic)

lemma le_value_Cons: "le_value (b # bs) = unat b + 256 * le_value bs"
  by (simp add: le_value_def)

lemma le_value_Nil: "le_value [] = 0"
  by (simp add: le_value_def)

lemma le_value_NumericToRawBytes: "le_value (NumericToRawBytes k n) = n mod 256 ^ k"
proof (induction k arbitrary: n)
  case 0
  show ?case by (simp add: le_value_Nil)
next
  case (Suc k)
  have "le_value (NumericToRawBytes (Suc k) n) = n mod 256 + 256 * (n div 256 mod 256 ^ k)"
    by (simp add: le_value_Cons Suc.IH unat_of_nat)
  also have "\<dots> = n mod 256 ^ Suc k"
    by (simp add: mod_mult2_eq)
  finally show ?case .
qed

lemma le_value_u16: "le_value (NumericToRawBytes 2 (ToUint16 x)) = ToUint16 x"
  using ToUint16_lt [of x] by (simp add: le_value_NumericToRawBytes)

lemma le_value_u32: "le_value (NumericToRawBytes 4 (ToUint32 x)) = ToUint32 x"
  using ToUint32_lt [of x] by (simp add: le_value_NumericToRawBytes)

lemma field_here: "length xs = n \<Longrightarrow> field (xs @ ys) 0 n = xs"
  by (simp add: field_def)

lemma field_skip:
  "length xs \<le> off \<Longrightarrow> field (xs @ ys) off n = field ys (off - length xs) n"
  by (simp add: field_def)

lemma field_last: "length xs = n \<Longrightarrow> field xs 0 n = xs"
  by (simp add: field_def)

lemmas field_at_simps = field_here field_skip field_last length_NumericToRawBytes length_magic

lemma readField_RIFF_size:
  "readField (createWavHeader dl sr ch bits) 4 4 = Some (ToUint32 (fl (36 + of_int dl)))"
  by (simp add: createWavHeader_bytes readField_def field_at_simps le_value_u32)

lemma readField_fmt_size:
  "readField (createWavHeader dl sr ch bits) 16 4 = Some (ToUint32 16)"
  by (simp add: createWavHeader_bytes readField_def field_at_simps le_value_u32)

lemma readField_format:
  "readField (createWavHeader dl sr ch bits) 20 2 = Some (ToUint16 1)"
  by (simp add: createWavHeader_bytes readField_def field_at_simps le_value_u16)

lemma readField_channels:
  "readField (createWavHeader dl sr ch bits) 22 2 = Some (ToUint16 (of_int ch))"
  by (simp add: createWavHeader_bytes readField_def field_at_simps le_value_u16)

lemma readField_sampleRate:
  "readField (createWavHeader dl sr ch bits) 24 4 = Some (ToUint32 (of_int sr))"
  by (simp add: createWavHeader_bytes readField_def field_at_simps le_value_u32)

lemma readField_byteRate:
  "readField (createWavHeader dl sr ch bits) 28 4 =
     Some (ToUint32 (fl (fl (of_int sr * of_int ch) * fl (of_int bits / 8))))"
  by (simp add: createWavHeader_bytes readField_def field_at_simps le_value_u32)

lemma readField_blockAlign:
  "readField (createWavHeader dl sr ch bits) 32 2 =
     Some (ToUint16 (fl (of_int ch * fl (of_int bits / 8))))"
  by (simp add: createWavHeader_bytes readField_def field_at_simps le_value_u16)

lemma readField_bits:
  "readField (createWavHeader dl sr ch bits) 34 2 = Some (ToUint16 (of_int bits))"
  by (simp add: createWavHeader_bytes readField_def field_at_simps le_value_u16)

lemma readField_data_size:
  "readField (createWavHeader dl sr ch bits) 40 4 = Some (ToUint32 (of_int dl))"
  by (simp add: createWavHeader_bytes readField_def field_at_simps le_value_u32)

lemma readBytes_RIFF: "readBytes (createWavHeader dl sr ch bits) 0 4 = Some (magic ''RIFF'')"
  by (simp add: createWavHeader_bytes readBytes_def field_at_simps)

lemma readBytes_WAVE: "readBytes (createWavHeader dl sr ch bits) 8 4 = Some (magic ''WAVE'')"
  by (simp add: createWavHeader_bytes readBytes_def field_at_simps)

lemma readBytes_fmt: "readBytes (createWavHeader dl sr ch bits) 12 4 = Some (magic ''fmt '')"
  by (simp add: createWavHeader_bytes readBytes_def field_at_simps)

lemma readBytes_data: "readBytes (createWavHeader dl sr ch bits) 36 4 = Some (magic ''data'')"
  by (simp add: createWavHeader_bytes readBytes_def field_at_simps)

lemmas readField_all = readField_RIFF_size readField_fmt_size readField_format
  readField_channels readField_sampleRate readField_byteRate readField_blockAlign
  readField_bits readField_data_size

lemmas readBytes_all = readBytes_RIFF readBytes_WAVE readBytes_fmt readBytes_data

text \<open>The three computed fields when the double arithmetic is exact: the value,
  truncated towards zero, modulo the width of the field.\<close>

lemma RIFF_size_exact:
  assumes "\<bar>36 + dl\<bar> < 2 ^ 53"
  shows "readField (createWavHeader dl sr ch bits) 4 4 = Some (nat ((36 + dl) mod 2 ^ 32))"
  by (simp only: readField_RIFF_size fl_36_plus [OF assms] ToUint32_of_int)

lemma blockAlign_field_exact:
  assumes "\<bar>bits\<bar> < 2 ^ 53" "\<bar>ch * bits\<bar> < 2 ^ 53"
  shows "readField (createWavHeader dl sr ch bits) 32 2
    = Some (nat ((sgn (ch * bits) * (\<bar>ch * bits\<bar> div 8)) mod 2 ^ 16))"
  by (simp only: readField_blockAlign blockAlign_exact [OF assms] ToUint16_def ToInteger_eighths)

lemma byteRate_field_exact:
  assumes "\<bar>bits\<bar> < 2 ^ 53" "\<bar>sr * ch\<bar> < 2 ^ 53" "\<bar>sr * ch * bits\<bar> < 2 ^ 53"
  shows "readField (createWavHeader dl sr ch bits) 28 4
    = Some (nat ((sgn (sr * ch * bits) * (\<bar>sr * ch * bits\<bar> div 8)) mod 2 ^ 32))"
  by (simp only: readField_byteRate byteRate_exact [OF assms] ToUint32_def ToInteger_eighths)

lemma trunc_eight: "0 \<le> x \<Longrightarrow> sgn (8 * x) * (\<bar>8 * x\<bar> div 8) = (x :: int)"
  by (cases "x = 0") simp_all

text \<open>The numeric fields when every value fits its field.\<close>

lemma fields_in_range:
  assumes "0 \<le> numChannels" "numChannels < 2 ^ 16"
    and "0 \<le> bitsPerSample" "bitsPerSample < 2 ^ 16" "8 dvd bitsPerSample"
    and "0 \<le> sampleRate" "sampleRate < 2 ^ 32"
    and "36 + int len < 2 ^ 32"
    and "sampleRate * numChannels * (bitsPerSample div 8) < 2 ^ 32"
    and "numChannels * (bitsPerSample div 8) < 2 ^ 16"
  shows "readField (createWavHeader (int len) sampleRate numChannels bitsPerSample) 4 4
        = Some (36 + len)
   \<and> readField (createWavHeader (int len) sampleRate numChannels bitsPerSample) 16 4 = Some 16
   \<and> readField (createWavHeader (int len) sampleRate numChannels bitsPerSample) 20 2 = Some 1
   \<and> readField (createWavHeader (int len) sampleRate numChannels bitsPerSample) 22 2
        = Some (nat numChannels)
   \<and> readField (createWavHeader (int len) sampleRate numChannels bitsPerSample) 24 4
        = Some (nat sampleRate)
   \<and> readField (createWavHeader (int len) sampleRate numChannels bitsPerSample) 28 4
        = Some (nat (sampleRate * numChannels * (bitsPerSample div 8)))
   \<and> readField (createWavHeader (int len) sampleRate numChannels bitsPerSample) 32 2
        = Some (nat (numChannels * (bitsPerSample div 8)))
   \<and> readField (createWavHeader (int len) sampleRate numChannels bitsPerSample) 34 2
        = Some (nat bitsPerSample)
   \<and> readField (createWavHeader (int len) sampleRate numChannels bitsPerSample) 40 4 = Some len"
proof -
  from assms(5) obtain k where k: "bitsPerSample = 8 * k" ..
  have k0: "0 \<le> k" using assms(3) k by simp
  have kd: "bitsPerSample div 8 = k" using k by simp
  have ba0: "0 \<le> numChannels * k"
    using assms(1) k0 by simp
  have br0: "0 \<le> sampleRate * numChannels * k"
    using assms(6) ba0 by (simp add: mult.assoc)
  have sc0: "0 \<le> sampleRate * numChannels"
    using assms(1,6) by simp
  have "sampleRate * numChannels \<le> 2 ^ 32 * 2 ^ 16"
    using assms(1,2,6,7) by (intro mult_mono) simp_all
  then have sc: "\<bar>sampleRate * numChannels\<bar> < 2 ^ 53"
    using sc0 by simp
  have bb: "\<bar>bitsPerSample\<bar> < 2 ^ 53"
    using assms(3,4) by simp
  have cb: "numChannels * bitsPerSample = 8 * (numChannels * k)"
    by (simp add: k)
  have scb: "sampleRate * numChannels * bitsPerSample = 8 * (sampleRate * numChannels * k)"
    by (simp add: k)
  have eight: "0 \<le> x \<Longrightarrow> x < 2 ^ 32 \<Longrightarrow> \<bar>8 * x\<bar> < 2 ^ 53" for x :: int
    by simp
  have "numChannels * k < 2 ^ 32"
    using assms(10) unfolding kd by simp
  then have cbb: "\<bar>numChannels * bitsPerSample\<bar> < 2 ^ 53"
    unfolding cb using ba0 by (intro eight)
  have "sampleRate * numChannels * k < 2 ^ 32"
    using assms(9) unfolding kd .
  then have scbb: "\<bar>sampleRate * numChannels * bitsPerSample\<bar> < 2 ^ 53"
    unfolding scb using br0 by (intro eight)
  have riff: "readField (createWavHeader (int len) sampleRate numChannels bitsPerSample) 4 4
      = Some (36 + len)"
  proof -
    have "\<bar>36 + int len\<bar> < 2 ^ 53" using assms(8) by simp
    from RIFF_size_exact [OF this] show ?thesis
      using assms(8) by (simp add: nat_add_distrib)
  qed
  have dat: "ToUint32 (of_int (int len)) = len"
    using assms(8) by (simp only: ToUint32_of_int) simp
  have chn: "ToUint16 (of_int numChannels) = nat numChannels"
    using assms(1,2) by (simp only: ToUint16_of_int) simp
  have srt: "ToUint32 (of_int sampleRate) = nat sampleRate"
    using assms(6,7) by (simp only: ToUint32_of_int) simp
  have bts: "ToUint16 (of_int bitsPerSample) = nat bitsPerSample"
    using assms(3,4) by (simp only: ToUint16_of_int) simp
  have bal: "readField (createWavHeader (int len) sampleRate numChannels bitsPerSample) 32 2
      = Some (nat (numChannels * (bitsPerSample div 8)))"
  proof -
    have "sgn (numChannels * bitsPerSample) * (\<bar>numChannels * bitsPerSample\<bar> div 8)
        = numChannels * k"
      unfolding cb by (rule trunc_eight [OF ba0])
    with blockAlign_field_exact [OF bb cbb, of "int len" sampleRate] show ?thesis
      using ba0 assms(10) kd by simp
  qed
  have brt: "readField (createWavHeader (int len) sampleRate numChannels bitsPerSample) 28 4
      = Some (nat (sampleRate * numChannels * (bitsPerSample div 8)))"
  proof -
    have "sgn (sampleRate * numChannels * bitsPerSample)
          * (\<bar>sampleRate * numChannels * bitsPerSample\<bar> div 8)
        = sampleRate * numChannels * k"
      unfolding scb by (rule trunc_eight [OF br0])
    with byteRate_field_exact [OF bb sc scbb, of "int len"] show ?thesis
      using br0 assms(9) kd by simp
  qed
  show ?thesis
    by (simp only: riff bal brt readField_fmt_size readField_format readField_channels
        readField_sampleRate readField_bits readField_data_size dat chn srt bts
        ToUint32_16 ToUint16_1 simp_thms)
qed

subsection \<open>Claims about the header\<close>

text \<open>
  C1 (as the claim states it, refuted). The claim gives the channel-count field at offset
  22 the value \<open>channelCount\<close> for every input. For \<open>channelCount = 65537\<close> the two bytes
  at offset 22 decode to 1, not to 65537. Likewise a sample rate of \<open>-1\<close> is stored as
  \<open>2^32 - 1\<close>, and with 12 bits per sample the block align \<open>1 * (12 / 8) = 1.5\<close> is stored
  as 1.
\<close>

theorem channel_count_wraps_counterexample:
  "readField (createWavHeader 4 24000 65537 16) 22 2 = Some 1
   \<and> readField (createWavHeader 4 24000 65537 16) 22 2 \<noteq> Some 65537
   \<and> readField (createWavHeader 4 (- 1) 1 16) 24 4 = Some 4294967295
   \<and> readField (createWavHeader 4 24000 1 12) 32 2 = Some 1"
  using readField_channels [of 4 24000 65537 16] ToUint16_of_int [of 65537]
    readField_sampleRate [of 4 "- 1" 1 16] ToUint32_of_int [of "- 1"]
    blockAlign_field_exact [of 12 1 4 24000]
  by simp

text \<open>
  C1 (amended). For every payload length, sample rate, channel count and bit depth the
  header has 44 bytes and carries the four ASCII tags \<open>RIFF\<close> at 0, \<open>WAVE\<close> at 8, \<open>fmt \<close> at
  12 and \<open>data\<close> at 36. When moreover every value fits its field (channel count and bit
  depth in \<open>[0, 2^16)\<close> with the bit depth a multiple of 8, sample rate in \<open>[0, 2^32)\<close>,
  \<open>36 + len < 2^32\<close>, byte rate below \<open>2^32\<close> and block align below \<open>2^16\<close>), the little-endian
  fields are: RIFF chunk size \<open>36 + len\<close> at 4, subchunk size 16 at 16, audio format 1 at 20,
  channel count at 22, sample rate at 24, byte rate \<open>sampleRate * ch * (bits / 8)\<close> at 28,
  block align \<open>ch * (bits / 8)\<close> at 32, bits per sample at 34 and data size \<open>len\<close> at 40.
\<close>

theorem createWavHeader_layout:
  "(\<exists>h. createWavHeader (int len) sampleRate numChannels bitsPerSample = Inr h \<and> length h = 44)
   \<and> readBytes (createWavHeader (int len) sampleRate numChannels bitsPerSample) 0 4
        = Some (magic ''RIFF'')
   \<and> readBytes (createWavHeader (int len) sampleRate numChannels bitsPerSample) 8 4
        = Some (magic ''WAVE'')
   \<and> readBytes (createWavHeader (int len) sampleRate numChannels bitsPerSample) 12 4
        = Some (magic ''fmt '')
   \<and> readBytes (createWavHeader (int len) sampleRate numChannels bitsPerSample) 36 4
        = Some (magic ''data'')
   \<and> (0 \<le> numChannels \<and> numChannels < 2 ^ 16
        \<and> 0 \<le> bitsPerSample \<and> bitsPerSample < 2 ^ 16 \<and> 8 dvd bitsPerSample
        \<and> 0 \<le> sampleRate \<and> sampleRate < 2 ^ 32
        \<and> 36 + int len < 2 ^ 32
        \<and> sampleRate * numChannels * (bitsPerSample div 8) < 2 ^ 32
        \<and> numChannels * (bitsPerSample div 8) < 2 ^ 16
      \<longrightarrow>
        readField (createWavHeader (int len) sampleRate numChannels bitsPerSample) 4 4
          = Some (36 + len)
      \<and> readField (createWavHeader (int len) sampleRate numChannels bitsPerSample) 16 4 = Some 16
      \<and> readField (createWavHeader (int len) sampleRate numChannels bitsPerSample) 20 2 = Some 1
      \<and> readField (createWavHeader (int len) sampleRate numChannels bitsPerSample) 22 2
          = Some (nat numChannels)
      \<and> readField (createWavHeader (int len) sampleRate numChannels bitsPerSample) 24 4
          = Some (nat sampleRate)
      \<and> readField (createWavHeader (int len) sampleRate numChannels bitsPerSample) 28 4
          = Some (nat (sampleRate * numChannels * (bitsPerSample div 8)))
      \<and> readField (createWavHeader (int len) sampleRate numChannels bitsPerSample) 32 2
          = Some (nat (numChannels * (bitsPerSample div 8)))
      \<and> readField (createWavHeader (int len) sampleRate numChannels bitsPerSample) 34 2
          = Some (nat bitsPerSample)
      \<and> readField (createWavHeader (int len) sampleRate numChannels bitsPerSample) 40 4
          = Some len)"
proof (intro conjI impI)
  show "\<exists>h. createWavHeader (int len) sampleRate numChannels bitsPerSample = Inr h \<and> length h = 44"
    by (rule length_createWavHeader)
next
  assume r: "0 \<le> numChannels \<and> numChannels < 2 ^ 16
        \<and> 0 \<le> bitsPerSample \<and> bitsPerSample < 2 ^ 16 \<and> 8 dvd bitsPerSample
        \<and> 0 \<le> sampleRate \<and> sampleRate < 2 ^ 32
        \<and> 36 + int len < 2 ^ 32
        \<and> sampleRate * numChannels * (bitsPerSample div 8) < 2 ^ 32
        \<and> numChannels * (bitsPerSample div 8) < 2 ^ 16"
  have f: "readField (createWavHeader (int len) sampleRate numChannels bitsPerSample) 4 4
        = Some (36 + len)
   \<and> readField (createWavHeader (int len) sampleRate numChannels bitsPerSample) 16 4 = Some 16
   \<and> readField (createWavHeader (int len) sampleRate numChannels bitsPerSample) 20 2 = Some 1
   \<and> readField (createWavHeader (int len) sampleRate numChannels bitsPerSample) 22 2
        = Some (nat numChannels)
   \<and> readField (createWavHeader (int len) sampleRate numChannels bitsPerSample) 24 4
        = Some (nat sampleRate)
   \<and> readField (createWavHeader (int len) sampleRate numChannels bitsPerSample) 28 4
        = Some (nat (sampleRate * numChannels * (bitsPerSample div 8)))
   \<and> readField (createWavHeader (int len) sampleRate numChannels bitsPerSample) 32 2
        = Some (nat (numChannels * (bitsPerSample div 8)))
   \<and> readField (createWavHeader (int len) sampleRate numChannels bitsPerSample) 34 2
        = Some (nat bitsPerSample)
   \<and> readField (createWavHeader (int len) sampleRate numChannels bitsPerSample) 40 4 = Some len"
    using r by (intro fields_in_range) simp_all
  from f show "readField (createWavHeader (int len) sampleRate numChannels bitsPerSample) 4 4
      = Some (36 + len)" by simp
  from f show "readField (createWavHeader (int len) sampleRate numChannels bitsPerSample) 16 4
      = Some 16" by simp
  from f show "readField (createWavHeader (int len) sampleRate numChannels bitsPerSample) 20 2
      = Some 1" by simp
  from f show "readField (createWavHeader (int len) sampleRate numChannels bitsPerSample) 22 2
      = Some (nat numChannels)" by simp
  from f show "readField (createWavHeader (int len) sampleRate numChannels bitsPerSample) 24 4
      = Some (nat sampleRate)" by simp
  from f show "readField (createWavHeader (int len) sampleRate numChannels bitsPerSample) 28 4
      = Some (nat (sampleRate * numChannels * (bitsPerSample div 8)))" by simp
  from f show "readField (createWavHeader (int len) sampleRate numChannels bitsPerSample) 32 2
      = Some (nat (numChannels * (bitsPerSample div 8)))" by simp
  from f show "readField (createWavHeader (int len) sampleRate numChannels bitsPerSample) 34 2
      = Some (nat bitsPerSample)" by simp
  from f show "readField (createWavHeader (int len) sampleRate numChannels bitsPerSample) 40 4
      = Some len" by simp
qed (rule readBytes_all)+

text \<open>The specification's example: 24000 Hz, one channel, 16 bits, four bytes of payload.\<close>

theorem createWavHeader_layout_witness:
  "readField (createWavHeader (int 4) 24000 1 16) 24 4 = Some 24000
   \<and> readField (createWavHeader (int 4) 24000 1 16) 28 4 = Some 48000
   \<and> readField (createWavHeader (int 4) 24000 1 16) 32 2 = Some 2
   \<and> readField (createWavHeader (int 4) 24000 1 16) 40 4 = Some 4
   \<and> readField (createWavHeader (int 4) 24000 1 16) 4 4 = Some 40
   \<and> readBytes (createWavHeader (int 4) 24000 1 16) 0 4 = Some [82, 73, 70, 70]"
  using createWavHeader_layout [of 4 24000 1 16] by (simp add: magic_def)






text \<open>
  C3 (as the claim states it, refuted). The claim has the encoder fail with
  \<open>InvalidParameters\<close> for a zero or negative parameter. With \<open>sampleRate = 0\<close> and
  \<open>channelCount = -1\<close> \<open>createWavHeader\<close> returns these 44 bytes: sample rate 0, channel
  count \<open>0xFFFF\<close>, block align \<open>0xFFFE\<close>.
\<close>

theorem nonpositive_parameters_counterexample:
  "createWavHeader 4 0 (- 1) 16 =
     Inr [82, 73, 70, 70, 40, 0, 0, 0, 87, 65, 86, 69, 102, 109, 116, 32, 16, 0, 0, 0, 1, 0,
          255, 255, 0, 0, 0, 0, 0, 0, 0, 0, 254, 255, 16, 0, 100, 97, 116, 97, 4, 0, 0, 0]"
  using ToUint16_of_int [of "- 1"] ToUint16_of_int [of "- 2"] ToUint16_of_int [of "16"]
    ToUint32_of_int [of 40] ToUint32_of_int [of 0] ToUint32_of_int [of 4]
    fl_of_int [of 40] fl_of_int [of 2] fl_of_int [of "- 2"] fl_of_int [of 0]
  by (simp add: createWavHeader_bytes NumericToRawBytes_2 NumericToRawBytes_4 magic_def
      ToUint32_16 ToUint16_1)

text \<open>
  C3 (amended). The encoder validates no parameter: for a zero or negative sample rate,
  channel count or bit depth \<open>createWavHeader\<close> still returns a header of 44 bytes, and it
  throws no exception for any parameters.
\<close>

theorem createWavHeader_never_rejects:
  "(sampleRate \<le> 0 \<or> numChannels \<le> 0 \<or> bitsPerSample \<le> 0 \<longrightarrow>
      (\<exists>h. createWavHeader dataLength sampleRate numChannels bitsPerSample = Inr h \<and> length h = 44))
   \<and> (\<forall>e. createWavHeader dataLength sampleRate numChannels bitsPerSample \<noteq> Inl e)"
  using length_createWavHeader [of dataLength sampleRate numChannels bitsPerSample] by auto

theorem createWavHeader_never_rejects_witness:
  "(\<exists>h. createWavHeader 4 0 (- 1) 16 = Inr h \<and> length h = 44)
   \<and> (\<exists>h. createWavHeader 4 24000 1 0 = Inr h \<and> length h = 44)"
  using createWavHeader_never_rejects [of 0 "- 1" 16 4] createWavHeader_never_rejects [of 24000 1 0 4]
  by simp

section \<open>Properties of the base64 decoder\<close>

subsection \<open>The decoder is atob\<close>

lemma base64ToUint8Array_loop_eq:
  "i \<le> length s \<Longrightarrow> length bytes = length s \<Longrightarrow>
   base64ToUint8Array_loop i bytes s = take i bytes @ map ucast (drop i s)"
proof (induction i bytes s rule: base64ToUint8Array_loop.induct)
  case (1 i bytes s)
  show ?case
  proof (cases "i < length s")
    case False
    with "1.prems" have "i = length s" by simp
    with "1.prems" show ?thesis
      by (subst base64ToUint8Array_loop.simps) simp
  next
    case True
    have cc: "charCodeAt s i = real (unat (s ! i))"
      using True unfolding charCodeAt_def by (simp only: if_True)
    let ?b = "bytes[i := ucast (s ! i)]"
    have upd: "bytes[i := of_nat (ToUint8 (charCodeAt s i))] = ?b"
      unfolding cc ToUint8_code_unit ..
    have ih: "base64ToUint8Array_loop (i + 1) ?b s = take (i + 1) ?b @ map ucast (drop (i + 1) s)"
      using "1.IH" [OF True] True "1.prems" unfolding upd by simp
    have a: "take (i + 1) ?b = take i bytes @ [ucast (s ! i)]"
      using True "1.prems" by (simp add: take_Suc_conv_app_nth)
    have c: "drop i s = s ! i # drop (i + 1) s"
      using True by (simp add: Cons_nth_drop_Suc)
    have "base64ToUint8Array_loop i bytes s = base64ToUint8Array_loop (i + 1) ?b s"
      by (subst base64ToUint8Array_loop.simps) (simp only: True if_True upd)
    also note ih
    finally show ?thesis
      by (simp only: a c) simp
  qed
qed

lemma ucast_ucast_byte: "(ucast (ucast (b :: byte) :: 16 word) :: byte) = b"
  by (rule ucast_up_ucast_id) (simp add: is_up)

text \<open>The bytes of the result are the bytes \<open>atob\<close> decoded, and the only exception is
  \<open>atob\<close>'s.\<close>

lemma base64ToUint8Array_eq:
  "base64ToUint8Array s =
     (case forgiving_base64_decode s of
        None \<Rightarrow> Inl InvalidCharacterError
      | Some bytes \<Rightarrow> Inr bytes)"
proof (cases "forgiving_base64_decode s")
  case None
  then show ?thesis
    by (simp add: base64ToUint8Array_def atob_def andThen_Inl)
next
  case (Some bytes)
  have "base64ToUint8Array_loop 0 (replicate (length bytes) 0) (map ucast bytes) = bytes"
    using base64ToUint8Array_loop_eq [of 0 "map ucast bytes" "replicate (length bytes) 0"]
    by (simp add: ucast_ucast_byte comp_def)
  with Some show ?thesis
    by (simp add: base64ToUint8Array_def atob_def andThen_Inr)
qed

lemmas b64_eval = base64ToUint8Array_eq forgiving_base64_decode_def js_def
  is_ascii_whitespace_def remove_padding_def is_base64_char_def base64_index_def Let_def

lemma base64ToUint8Array_empty: "base64ToUint8Array [] = Inr []"
  by (simp add: b64_eval)

subsection \<open>Rejected inputs\<close>

text \<open>
  C4 (as the claim states it, refuted). The claim has the decoder fail on every input
  with a character outside \<open>[A-Za-z0-9+/=]\<close> or with an invalid padding length. The input
  \<open>Q Q==\<close> contains a space and decodes to the byte 65; the input \<open>QQ\<close>, whose padding is
  missing, decodes to the same byte.
\<close>

theorem whitespace_accepted_counterexample:
  "base64ToUint8Array (js ''Q Q=='') = Inr [65] \<and> base64ToUint8Array (js ''QQ'') = Inr [65]"
  by (simp add: b64_eval)

text \<open>The two character classes, written out: the code units of TAB, LF, FF, CR and
  SPACE, and those of \<open>A-Z\<close> (65 to 90), \<open>a-z\<close> (97 to 122), \<open>0-9\<close> (48 to 57), \<open>+\<close> (43) and
  \<open>/\<close> (47).\<close>

lemma ws_explicit: "(c \<notin> {9, 10, 12, 13, 32}) = (\<not> is_ascii_whitespace c)"
  by (simp add: is_ascii_whitespace_def)

lemma alpha_explicit:
  "(65 \<le> unat c \<and> unat c \<le> 90 \<or> 97 \<le> unat c \<and> unat c \<le> 122 \<or> 48 \<le> unat c \<and> unat c \<le> 57
      \<or> c = 43 \<or> c = 47) = is_base64_char c"
  by (simp add: is_base64_char_def Let_def word_unat_eq_iff)

lemma base64_char_not_space: "is_base64_char c \<Longrightarrow> \<not> is_ascii_whitespace c"
  by (auto simp: is_base64_char_def is_ascii_whitespace_def Let_def)

lemma base64_char_not_pad: "is_base64_char c \<Longrightarrow> c \<noteq> 61"
  by (auto simp: is_base64_char_def Let_def)

lemma pad_not_space: "\<not> is_ascii_whitespace 61"
  by (simp add: is_ascii_whitespace_def)

lemma filter_base64:
  "list_all is_base64_char d \<Longrightarrow> filter (\<lambda>c. \<not> is_ascii_whitespace c) d = d"
  by (induction d) (simp_all add: base64_char_not_space)

lemma last_base64: "list_all is_base64_char d \<Longrightarrow> d \<noteq> [] \<Longrightarrow> last d \<noteq> 61"
  by (induction d) (auto simp: base64_char_not_pad)

lemma remove_padding_0: "list_all is_base64_char d \<Longrightarrow> remove_padding d = d"
  by (cases "d = []") (auto simp: remove_padding_def dest: last_base64)

lemma remove_padding_1: "list_all is_base64_char d \<Longrightarrow> remove_padding (d @ [61]) = d"
  by (cases "d = []") (auto simp: remove_padding_def butlast_append dest: last_base64)

lemma remove_padding_2: "remove_padding (d @ [61, 61]) = d"
  by (simp add: remove_padding_def butlast_append)

lemma remove_padding_split:
  "\<exists>p. d = remove_padding d @ p \<and> (p = [] \<or> p = [61] \<or> p = [61, 61])"
proof (cases "2 \<le> length d \<and> last d = 61 \<and> last (butlast d) = 61")
  case True
  then have "d \<noteq> []" and "butlast d \<noteq> []"
    by (auto simp: butlast_conv_take)
  then have "d = butlast (butlast d) @ [last (butlast d), last d]"
    by (metis append_butlast_last_id append.assoc append_Cons append_Nil)
  with True show ?thesis
    by (auto simp: remove_padding_def)
next
  case False
  show ?thesis
  proof (cases "1 \<le> length d \<and> last d = 61")
    case True
    then have "d \<noteq> []" by auto
    then have "d = butlast d @ [last d]" by simp
    with True False show ?thesis
      by (auto simp: remove_padding_def)
  next
    case no: False
    with False show ?thesis
      by (auto simp: remove_padding_def)
  qed
qed

text \<open>The inputs the decoder accepts: after the whitespace is removed, alphabet
  characters, not \<open>4k + 1\<close> of them, followed by nothing or, when the whole length is a
  multiple of 4, by one or two \<open>=\<close>.\<close>

lemma forgiving_accepts:
  assumes t: "filter (\<lambda>c. \<not> is_ascii_whitespace c) s = d @ p"
    and d: "list_all is_base64_char d"
    and n1: "length d mod 4 \<noteq> 1"
    and p: "p = [] \<or> length (filter (\<lambda>c. \<not> is_ascii_whitespace c) s) mod 4 = 0
              \<and> (p = [61] \<or> p = [61, 61])"
  shows "forgiving_base64_decode s = Some (decode_loop d 0 0 [])"
proof -
  have r: "(if length (d @ p) mod 4 = 0 then remove_padding (d @ p) else d @ p) = d"
    using p remove_padding_0 [OF d] remove_padding_1 [OF d] remove_padding_2 [of d]
    unfolding t by auto
  show ?thesis
    unfolding forgiving_base64_decode_def t Let_def r using n1 d by simp
qed

lemma forgiving_accepted:
  assumes some: "forgiving_base64_decode s = Some bytes"
  shows "\<exists>d p. filter (\<lambda>c. \<not> is_ascii_whitespace c) s = d @ p
      \<and> list_all is_base64_char d \<and> length d mod 4 \<noteq> 1
      \<and> (p = [] \<or> length (filter (\<lambda>c. \<not> is_ascii_whitespace c) s) mod 4 = 0
              \<and> (p = [61] \<or> p = [61, 61]))"
proof -
  define t where "t = filter (\<lambda>c. \<not> is_ascii_whitespace c) s"
  define d where "d = (if length t mod 4 = 0 then remove_padding t else t)"
  have dec: "forgiving_base64_decode s =
      (if length d mod 4 = 1 then None
       else if \<not> list_all is_base64_char d then None
       else Some (decode_loop d 0 0 []))"
    unfolding forgiving_base64_decode_def Let_def d_def t_def ..
  have n1: "length d mod 4 \<noteq> 1"
  proof
    assume "length d mod 4 = 1"
    then show False using some unfolding dec by simp
  qed
  have al: "list_all is_base64_char d"
  proof (rule ccontr)
    assume "\<not> list_all is_base64_char d"
    then show False using some n1 unfolding dec by simp
  qed
  have "\<exists>p. t = d @ p \<and> (p = [] \<or> length t mod 4 = 0 \<and> (p = [61] \<or> p = [61, 61]))"
  proof (cases "length t mod 4 = 0")
    case True
    then have "d = remove_padding t" by (simp add: d_def)
    with remove_padding_split [of t] True show ?thesis by metis
  next
    case False
    then have "d = t" by (simp add: d_def)
    then show ?thesis by simp
  qed
  then show ?thesis
  proof (elim exE conjE)
    fix p
    assume tp: "t = d @ p"
      and pp: "p = [] \<or> length t mod 4 = 0 \<and> (p = [61] \<or> p = [61, 61])"
    show ?thesis
      apply (rule exI [of _ d])
      apply (rule exI [of _ p])
      using n1 al tp pp unfolding t_def apply simp
      done
  qed
qed

text \<open>
  C4 (amended). Let \<open>t\<close> be the input without its ASCII whitespace (TAB, LF, FF, CR,
  SPACE). The decoder fails, with the platform's \<open>InvalidCharacterError\<close>, exactly when \<open>t\<close>
  is not of this form: characters of \<open>[A-Za-z0-9+/]\<close>, their number not 1 modulo 4,
  followed by nothing or, only when the length of \<open>t\<close> is a multiple of 4, by one or two
  \<open>=\<close>; otherwise it returns bytes. So every character outside \<open>[A-Za-z0-9+/=]\<close> other than
  ASCII whitespace is rejected, and so is every \<open>=\<close> that is not final padding and every
  padding that does not complete the length to a multiple of 4; ASCII whitespace is
  skipped and the padding may be left out.
\<close>

theorem base64ToUint8Array_rejects:
  "(base64ToUint8Array s = Inl InvalidCharacterError) =
     (\<not> (\<exists>d p. filter (\<lambda>c. c \<notin> {9, 10, 12, 13, 32}) s = d @ p
            \<and> (\<forall>c \<in> set d. 65 \<le> unat c \<and> unat c \<le> 90 \<or> 97 \<le> unat c \<and> unat c \<le> 122
                     \<or> 48 \<le> unat c \<and> unat c \<le> 57 \<or> c = 43 \<or> c = 47)
            \<and> length d mod 4 \<noteq> 1
            \<and> (p = [] \<or> length (filter (\<lambda>c. c \<notin> {9, 10, 12, 13, 32}) s) mod 4 = 0
                    \<and> (p = [61] \<or> p = [61, 61]))))
   \<and> ((\<exists>bytes. base64ToUint8Array s = Inr bytes)
        \<or> base64ToUint8Array s = Inl InvalidCharacterError)"
proof -
  let ?W = "\<exists>d p. filter (\<lambda>c. \<not> is_ascii_whitespace c) s = d @ p
            \<and> list_all is_base64_char d \<and> length d mod 4 \<noteq> 1
            \<and> (p = [] \<or> length (filter (\<lambda>c. \<not> is_ascii_whitespace c) s) mod 4 = 0
                    \<and> (p = [61] \<or> p = [61, 61]))"
  have iff: "(forgiving_base64_decode s = None) = (\<not> ?W)"
  proof (cases "forgiving_base64_decode s")
    case None
    have "\<not> ?W"
    proof
      assume ?W
      then obtain d p where "filter (\<lambda>c. \<not> is_ascii_whitespace c) s = d @ p"
        and "list_all is_base64_char d" and "length d mod 4 \<noteq> 1"
        and "p = [] \<or> length (filter (\<lambda>c. \<not> is_ascii_whitespace c) s) mod 4 = 0
                    \<and> (p = [61] \<or> p = [61, 61])"
        by (elim exE conjE)
      then have "forgiving_base64_decode s = Some (decode_loop d 0 0 [])"
        by (rule forgiving_accepts)
      with None show False by simp
    qed
    with None show ?thesis by simp
  next
    case (Some bytes)
    then have ?W by (rule forgiving_accepted)
    with Some show ?thesis by simp
  qed
  show ?thesis
    unfolding ws_explicit alpha_explicit list_all_iff [symmetric] iff [symmetric]
    by (cases "forgiving_base64_decode s") (simp_all add: base64ToUint8Array_eq)
qed


text \<open>Rejected: \<open>QQ=\<close> (padding that does not complete the length), \<open>Q===\<close> (three \<open>=\<close>),
  \<open>=QQQ\<close> and \<open>QQ=Q\<close> (an \<open>=\<close> before the end), \<open>Q!QQ\<close> (a character outside the alphabet)
  and \<open>QUJDR\<close> (five characters).\<close>

theorem base64ToUint8Array_rejects_witness:
  "base64ToUint8Array (js ''QQ='') = Inl InvalidCharacterError
   \<and> base64ToUint8Array (js ''Q==='') = Inl InvalidCharacterError
   \<and> base64ToUint8Array (js ''=QQQ'') = Inl InvalidCharacterError
   \<and> base64ToUint8Array (js ''QQ=Q'') = Inl InvalidCharacterError
   \<and> base64ToUint8Array (js ''Q!QQ'') = Inl InvalidCharacterError
   \<and> base64ToUint8Array (js ''QUJDR'') = Inl InvalidCharacterError"
proof (intro conjI)
  show "base64ToUint8Array (js ''QQ='') = Inl InvalidCharacterError"
    using base64ToUint8Array_rejects [of "js ''QQ=''"]
    by (auto simp: js_def append_eq_Cons_conv)
  show "base64ToUint8Array (js ''Q==='') = Inl InvalidCharacterError"
    using base64ToUint8Array_rejects [of "js ''Q===''"]
    by (auto simp: js_def append_eq_Cons_conv)
  show "base64ToUint8Array (js ''=QQQ'') = Inl InvalidCharacterError"
    using base64ToUint8Array_rejects [of "js ''=QQQ''"]
    by (auto simp: js_def append_eq_Cons_conv)
  show "base64ToUint8Array (js ''QQ=Q'') = Inl InvalidCharacterError"
    using base64ToUint8Array_rejects [of "js ''QQ=Q''"]
    by (auto simp: js_def append_eq_Cons_conv)
  show "base64ToUint8Array (js ''Q!QQ'') = Inl InvalidCharacterError"
    using base64ToUint8Array_rejects [of "js ''Q!QQ''"]
    by (auto simp: js_def append_eq_Cons_conv)
  show "base64ToUint8Array (js ''QUJDR'') = Inl InvalidCharacterError"
    using base64ToUint8Array_rejects [of "js ''QUJDR''"]
    by (auto simp: js_def append_eq_Cons_conv)
qed

subsection \<open>Decoding the reference encoding\<close>

lemma unat_base64_char:
  "n < 64 \<Longrightarrow> unat (base64_char n) =
     (if n < 26 then n + 65 else if n < 52 then n + 71 else if n < 62 then n - 4
      else if n = 62 then 43 else 47)"
proof -
  assume "n < 64"
  then have "(if n < 26 then n + 65 else if n < 52 then n + 71 else if n < 62 then n - 4
      else if n = 62 then 43 else 47) < (65536 :: nat)"
    by auto
  then show ?thesis
    unfolding base64_char_def by (simp only: unat_of_nat) simp
qed

lemma is_base64_char_base64_char: "n < 64 \<Longrightarrow> is_base64_char (base64_char n)"
  by (simp add: is_base64_char_def unat_base64_char Let_def) arith

lemma base64_index_base64_char: "n < 64 \<Longrightarrow> base64_index (base64_char n) = n"
  by (simp add: base64_index_def unat_base64_char Let_def) arith

lemma unat_byte_lt: "unat (b :: byte) < 256"
  using unsigned_less [of b, where ?'a = nat] by simp

text \<open>Arithmetic of the groups: four sextets rejoin to the 24-bit value they were cut
  from, and the bytes of that value are the three input bytes.\<close>

lemma sextets_rejoin:
  "((v div 64 div 64 div 64 * 64 + v div 64 div 64 mod 64) * 64 + v div 64 mod 64) * 64
     + v mod 64 = (v :: nat)"
  by simp

lemma shift_div: "c < 256 \<Longrightarrow> (x * 256 + c) div 256 = (x :: nat)"
  by simp

lemma shift_mod: "c < 256 \<Longrightarrow> (x * 256 + c) mod 256 = (c :: nat)"
  by simp

lemma div64_1: "v < 4096 \<Longrightarrow> v div 64 < (64 :: nat)"
  by simp

lemma div64_2: "v < 262144 \<Longrightarrow> v div 64 div 64 < (64 :: nat)"
  by (simp add: div_mult2_eq [symmetric])

lemma div64_3: "v < 16777216 \<Longrightarrow> v div 64 div 64 div 64 < (64 :: nat)"
  by (simp add: div_mult2_eq [symmetric])

lemma mod64_lt: "v mod 64 < (64 :: nat)"
  by simp

lemma bound_1: "unat (a :: byte) * 16 < 4096"
  using unat_byte_lt [of a] by simp

lemma bound_2: "(unat (a :: byte) * 256 + unat (b :: byte)) * 4 < 262144"
  using unat_byte_lt [of a] unat_byte_lt [of b] by (simp add: algebra_simps)

lemma bound_3: "(unat (a :: byte) * 256 + unat (b :: byte)) * 256 + unat (c :: byte) < 16777216"
  using unat_byte_lt [of a] unat_byte_lt [of b] unat_byte_lt [of c] by (simp add: algebra_simps)

lemma decode_group:
  fixes a b c :: byte
  shows "decode_loop
           (base64_char (((unat a * 256 + unat b) * 256 + unat c) div 64 div 64 div 64) #
            base64_char (((unat a * 256 + unat b) * 256 + unat c) div 64 div 64 mod 64) #
            base64_char (((unat a * 256 + unat b) * 256 + unat c) div 64 mod 64) #
            base64_char (((unat a * 256 + unat b) * 256 + unat c) mod 64) # cs) 0 0 out
         = decode_loop cs 0 0 (out @ [a, b, c])"
proof -
  define v where "v = (unat a * 256 + unat b) * 256 + unat c"
  have "v < 16777216"
    unfolding v_def by (rule bound_3)
  then have s1: "v div 64 div 64 div 64 < 64"
    by (rule div64_3)
  have D: "v div 256 = unat a * 256 + unat b"
    unfolding v_def by (rule shift_div) (rule unat_byte_lt)
  have A: "v div 256 div 256 = unat a"
    unfolding D by (rule shift_div) (rule unat_byte_lt)
  have B: "v div 256 mod 256 = unat b"
    unfolding D by (rule shift_mod) (rule unat_byte_lt)
  have C: "v mod 256 = unat c"
    unfolding v_def by (rule shift_mod) (rule unat_byte_lt)
  show ?thesis
    unfolding v_def [symmetric]
    by (simp add: base64_index_base64_char s1 sextets_rejoin A B C)
qed

lemma decode_tail1:
  fixes a :: byte
  shows "decode_loop [base64_char (unat a * 16 div 64), base64_char (unat a * 16 mod 64)] 0 0 out
    = out @ [a]"
proof -
  define v where "v = unat a * 16"
  have "v < 4096"
    unfolding v_def by (rule bound_1)
  then have s1: "v div 64 < 64"
    by (rule div64_1)
  have A: "v div 16 = unat a"
    unfolding v_def by simp
  show ?thesis
    unfolding v_def [symmetric]
    by (simp add: base64_index_base64_char s1 A)
qed

lemma decode_tail2:
  fixes a b :: byte
  shows "decode_loop
           [base64_char ((unat a * 256 + unat b) * 4 div 64 div 64),
            base64_char ((unat a * 256 + unat b) * 4 div 64 mod 64),
            base64_char ((unat a * 256 + unat b) * 4 mod 64)] 0 0 out = out @ [a, b]"
proof -
  define v where "v = (unat a * 256 + unat b) * 4"
  have "v < 262144"
    unfolding v_def by (rule bound_2)
  then have s1: "v div 64 div 64 < 64"
    by (rule div64_2)
  have D: "v div 4 = unat a * 256 + unat b"
    unfolding v_def by simp
  have A: "v div 4 div 256 = unat a"
    unfolding D by (rule shift_div) (rule unat_byte_lt)
  have B: "v div 4 mod 256 = unat b"
    unfolding D by (rule shift_mod) (rule unat_byte_lt)
  have R: "(v div 64 div 64 * 64 + v div 64 mod 64) * 64 + v mod 64 = v"
    by simp
  show ?thesis
    unfolding v_def [symmetric]
    by (simp add: base64_index_base64_char s1 R A B)
qed

lemma encode_data_1:
  "encode_data [a] = [base64_char (unat a * 16 div 64), base64_char (unat a * 16 mod 64)]"
  by (simp only: encode_data.simps Let_def)

lemma encode_data_2:
  "encode_data [a, b] =
     [base64_char ((unat a * 256 + unat b) * 4 div 64 div 64),
      base64_char ((unat a * 256 + unat b) * 4 div 64 mod 64),
      base64_char ((unat a * 256 + unat b) * 4 mod 64)]"
  by (simp only: encode_data.simps Let_def)

lemma encode_data_3:
  "encode_data (a # b # c # rest) =
     base64_char (((unat a * 256 + unat b) * 256 + unat c) div 64 div 64 div 64) #
     base64_char (((unat a * 256 + unat b) * 256 + unat c) div 64 div 64 mod 64) #
     base64_char (((unat a * 256 + unat b) * 256 + unat c) div 64 mod 64) #
     base64_char (((unat a * 256 + unat b) * 256 + unat c) mod 64) # encode_data rest"
  by (simp only: encode_data.simps Let_def)

lemma encode_pad_cases:
  "encode_pad bs = [] \<or> encode_pad bs = [61] \<or> encode_pad bs = [61, 61]"
  by (induction bs rule: encode_pad.induct) simp_all

lemma length_encode: "length (encodeAsBase64 bs) mod 4 = 0"
  unfolding encodeAsBase64_def
  by (induction bs rule: encode_data.induct) (simp_all add: Let_def)

lemma encode_data_alphabet: "list_all is_base64_char (encode_data bs)"
proof (induction bs rule: encode_data.induct)
  case 1
  show ?case by simp
next
  case (2 a)
  show ?case
    unfolding encode_data_1
    by (simp only: list.pred_inject is_base64_char_base64_char
        div64_1 [OF bound_1] mod64_lt simp_thms)
next
  case (3 a b)
  show ?case
    unfolding encode_data_2
    by (simp only: list.pred_inject is_base64_char_base64_char
        div64_2 [OF bound_2] mod64_lt simp_thms)
next
  case (4 a b c rest)
  then show ?case
    unfolding encode_data_3
    by (simp only: list.pred_inject is_base64_char_base64_char
        div64_3 [OF bound_3] mod64_lt simp_thms)
qed

lemma decode_encode_data: "decode_loop (encode_data bs) 0 0 out = out @ bs"
proof (induction bs arbitrary: out rule: encode_data.induct)
  case 1
  show ?case by simp
next
  case (2 a)
  show ?case
    unfolding encode_data_1 by (rule decode_tail1)
next
  case (3 a b)
  show ?case
    unfolding encode_data_2 by (rule decode_tail2)
next
  case (4 a b c rest)
  have "decode_loop (encode_data (a # b # c # rest)) 0 0 out
      = decode_loop (encode_data rest) 0 0 (out @ [a, b, c])"
    unfolding encode_data_3 by (rule decode_group)
  also have "\<dots> = (out @ [a, b, c]) @ rest"
    by (rule "4.IH" [OF refl])
  finally show ?case
    by simp
qed

text \<open>A string of alphabet characters followed by at most two \<open>=\<close>, of a length that is
  a multiple of 4, passes the first four steps of the decoder.\<close>

lemma decode_padded:
  assumes d: "list_all is_base64_char d"
    and p: "p = [] \<or> p = [61] \<or> p = [61, 61]"
    and len: "length (d @ p) mod 4 = 0"
  shows "forgiving_base64_decode (d @ p) = Some (decode_loop d 0 0 [])"
proof -
  have f: "filter (\<lambda>c. \<not> is_ascii_whitespace c) (d @ p) = d @ p"
    using p by (auto simp: filter_base64 [OF d] pad_not_space)
  have r: "remove_padding (d @ p) = d"
    using p remove_padding_0 [OF d] remove_padding_1 [OF d] remove_padding_2 [of d] by auto
  from p have "length p = 0 \<or> length p = 1 \<or> length p = 2"
    by auto
  with len have n1: "length d mod 4 \<noteq> 1"
    by (simp only: length_append) presburger
  show ?thesis
    unfolding forgiving_base64_decode_def f Let_def
    using len r n1 d by simp
qed

lemma decode_encode: "base64ToUint8Array (encodeAsBase64 bs) = Inr bs"
proof -
  have len: "length (encode_data bs @ encode_pad bs) mod 4 = 0"
    using length_encode [of bs] unfolding encodeAsBase64_def .
  have "forgiving_base64_decode (encodeAsBase64 bs) = Some (decode_loop (encode_data bs) 0 0 [])"
    unfolding encodeAsBase64_def
    by (rule decode_padded [OF encode_data_alphabet encode_pad_cases len])
  also have "decode_loop (encode_data bs) 0 0 [] = bs"
    using decode_encode_data [of bs "[]"] by simp
  finally show ?thesis
    by (simp add: base64ToUint8Array_eq)
qed

text \<open>
  C5. For every byte sequence \<open>b\<close> (the empty one included), decoding the standard
  RFC 4648 base64 encoding of \<open>b\<close> with \<open>base64ToUint8Array\<close> returns exactly \<open>b\<close>: the
  decoder is a left inverse of the reference encoder.
\<close>

theorem base64_roundtrip: "base64ToUint8Array (encodeAsBase64 b) = Inr b"
  by (rule decode_encode)

section \<open>The container: header followed by payload\<close>

lemma pcmToWavBlob_of_decoded:
  assumes "base64ToUint8Array b64 = Inr pcm"
  shows "\<exists>header. createWavHeader (int (length pcm)) sampleRate 1 16 = Inr header
            \<and> length header = 44
            \<and> pcmToWavBlob b64 sampleRate
                = Inr \<lparr>blob_bytes = header @ pcm, blob_type = ''audio/wav''\<rparr>
            \<and> length (header @ pcm) = 44 + length pcm"
proof -
  from length_createWavHeader [of "int (length pcm)" sampleRate 1 16]
  obtain header where h: "createWavHeader (int (length pcm)) sampleRate 1 16 = Inr header"
    and l: "length header = 44" by blast
  have "pcmToWavBlob b64 sampleRate
      = Inr \<lparr>blob_bytes = header @ pcm, blob_type = ''audio/wav''\<rparr>"
    unfolding pcmToWavBlob_def assms andThen_Inr h ..
  with h l show ?thesis by simp
qed

text \<open>
  C2. For every payload \<open>pcm\<close> (the empty one included) the output of the encoder is the
  44-byte header followed by \<open>pcm\<close> itself, \<open>44 + length pcm\<close> bytes in all: this holds for
  \<open>pcmToWavBlob\<close> on the reference encoding of \<open>pcm\<close> and on any string that decodes to
  \<open>pcm\<close>; the header has 44 bytes for all parameters; and the empty payload gives a
  44-byte output whose data-size field is 0 and whose RIFF-size field is 36.
\<close>

theorem pcmToWavBlob_layout:
  "(\<exists>header. createWavHeader (int (length pcm)) sampleRate 1 16 = Inr header
        \<and> length header = 44
        \<and> pcmToWavBlob (encodeAsBase64 pcm) sampleRate
            = Inr \<lparr>blob_bytes = header @ pcm, blob_type = ''audio/wav''\<rparr>
        \<and> length (header @ pcm) = 44 + length pcm)
   \<and> (base64ToUint8Array b64 = Inr decoded \<longrightarrow>
        (\<exists>header. createWavHeader (int (length decoded)) sampleRate 1 16 = Inr header
           \<and> length header = 44
           \<and> pcmToWavBlob b64 sampleRate
               = Inr \<lparr>blob_bytes = header @ decoded, blob_type = ''audio/wav''\<rparr>
           \<and> length (header @ decoded) = 44 + length decoded))
   \<and> (\<exists>h. createWavHeader dataLength sampleRate numChannels bitsPerSample = Inr h
        \<and> length h = 44)
   \<and> (\<exists>header. pcmToWavBlob [] sampleRate
            = Inr \<lparr>blob_bytes = header, blob_type = ''audio/wav''\<rparr>
        \<and> length header = 44
        \<and> readField (Inr header) 40 4 = Some 0
        \<and> readField (Inr header) 4 4 = Some 36)"
proof (intro conjI impI)
  show "\<exists>header. createWavHeader (int (length pcm)) sampleRate 1 16 = Inr header
        \<and> length header = 44
        \<and> pcmToWavBlob (encodeAsBase64 pcm) sampleRate
            = Inr \<lparr>blob_bytes = header @ pcm, blob_type = ''audio/wav''\<rparr>
        \<and> length (header @ pcm) = 44 + length pcm"
    by (rule pcmToWavBlob_of_decoded) (rule decode_encode)
next
  assume "base64ToUint8Array b64 = Inr decoded"
  then show "\<exists>header. createWavHeader (int (length decoded)) sampleRate 1 16 = Inr header
           \<and> length header = 44
           \<and> pcmToWavBlob b64 sampleRate
               = Inr \<lparr>blob_bytes = header @ decoded, blob_type = ''audio/wav''\<rparr>
           \<and> length (header @ decoded) = 44 + length decoded"
    by (rule pcmToWavBlob_of_decoded)
next
  show "\<exists>h. createWavHeader dataLength sampleRate numChannels bitsPerSample = Inr h
      \<and> length h = 44"
    by (rule length_createWavHeader)
next
  from pcmToWavBlob_of_decoded [OF base64ToUint8Array_empty, of sampleRate]
  obtain header
    where h: "createWavHeader (int (length ([] :: byte list))) sampleRate 1 16 = Inr header"
    and l: "length header = 44"
    and b: "pcmToWavBlob [] sampleRate
        = Inr \<lparr>blob_bytes = header @ [], blob_type = ''audio/wav''\<rparr>"
    by blast
  have h0: "createWavHeader 0 sampleRate 1 16 = Inr header"
    using h by simp
  have "readField (Inr header) 40 4 = Some 0"
    using readField_data_size [of 0 sampleRate 1 16] ToUint32_of_int [of 0] unfolding h0 by simp
  moreover have "readField (Inr header) 4 4 = Some 36"
    using RIFF_size_exact [of 0 sampleRate 1 16] unfolding h0 by simp
  ultimately show "\<exists>header. pcmToWavBlob [] sampleRate
            = Inr \<lparr>blob_bytes = header, blob_type = ''audio/wav''\<rparr>
        \<and> length header = 44
        \<and> readField (Inr header) 40 4 = Some 0
        \<and> readField (Inr header) 4 4 = Some 36"
    using b l by simp
qed

text \<open>The string \<open>TWFu\<close> decodes to the three bytes of \<open>Man\<close>; the blob is the header for
  three bytes followed by them.\<close>

theorem pcmToWavBlob_layout_witness:
  "base64ToUint8Array (js ''TWFu'') = Inr [77, 97, 110]
   \<and> (\<exists>header. createWavHeader 3 24000 1 16 = Inr header \<and> length header = 44
        \<and> pcmToWavBlob (js ''TWFu'') 24000
            = Inr \<lparr>blob_bytes = header @ [77, 97, 110], blob_type = ''audio/wav''\<rparr>)"
proof -
  have d: "base64ToUint8Array (js ''TWFu'') = Inr [77, 97, 110]"
    by (simp add: b64_eval)
  show ?thesis
    using pcmToWavBlob_layout [of "[]" 24000 "js ''TWFu''" "[77, 97, 110]" 0 1 16] d
    by auto
qed

section \<open>Properties of the Gemini service\<close>

lemma substring_0: "substring s 0 n = take n s"
  by (simp add: substring_def Let_def min_def)

lemma no_text_continuation:
  assumes "generateContent request = Inr response"
    and "response_text response = None \<or> response_text response = Some []"
  shows "andThen (generateContent request)
           (\<lambda>response. case response_text response of
                          None \<Rightarrow> x
                        | Some t \<Rightarrow> if t = [] then x else f t) = x"
  using assms by (auto simp: andThen_def)

text \<open>
  C6 (as the claim states it, refuted). The claim has \<open>suggestTags\<close> throw when the response
  text is absent or empty. On a response without text, and on one with the empty text,
  \<open>suggestTags\<close> returns the empty array.
\<close>

theorem suggestTags_default_counterexample:
  "suggestTags no_text_provider parse_nothing (js ''walk'') None = Inr (JArr [])
   \<and> suggestTags empty_text_provider parse_nothing (js ''walk'') None = Inr (JArr [])"
  by (simp add: suggestTags_def no_text_provider_def empty_text_provider_def andThen_def Let_def)

text \<open>
  C6 (amended). When the provider answers the request of the call with a response whose
  text is absent or empty, \<open>analyzeJournalForVideo\<close> and \<open>analyzeLifeProfile\<close> throw the
  error "No response from Gemini" to the caller, and \<open>suggestTags\<close> returns the default
  value, the empty list of tags. What the provider answers to other requests does not
  matter.
\<close>

theorem absent_response_text:
  "(generateContent (analyzeJournalForVideo_request entriesText) = Inr response
      \<and> (response_text response = None \<or> response_text response = Some [])
      \<longrightarrow> analyzeJournalForVideo generateContent JSON_parse entriesText
            = Inl (Error ''No response from Gemini''))
   \<and> (generateContent (analyzeLifeProfile_request entriesText) = Inr response
      \<and> (response_text response = None \<or> response_text response = Some [])
      \<longrightarrow> analyzeLifeProfile generateContent JSON_parse entriesText
            = Inl (Error ''No response from Gemini''))
   \<and> (generateContent (suggestTags_request content imageBase64) = Inr response
      \<and> (response_text response = None \<or> response_text response = Some [])
      \<longrightarrow> suggestTags generateContent JSON_parse content imageBase64 = Inr (JArr []))"
  unfolding analyzeJournalForVideo_def analyzeLifeProfile_def suggestTags_def
  by (intro conjI impI; elim conjE; rule no_text_continuation; assumption)

text \<open>The provider of the first two calls has the text \<open>[]\<close> for every request but the one
  made.\<close>

theorem absent_response_text_witness:
  "analyzeJournalForVideo
       (text_unless (analyzeJournalForVideo_request (js ''today'')) None)
       parse_nothing (js ''today'')
     = Inl (Error ''No response from Gemini'')
   \<and> analyzeLifeProfile
       (text_unless (analyzeLifeProfile_request (js ''today'')) (Some []))
       parse_nothing (js ''today'')
     = Inl (Error ''No response from Gemini'')
   \<and> suggestTags no_text_provider parse_nothing (js ''today'') None = Inr (JArr [])"
  using
    absent_response_text [of "text_unless (analyzeJournalForVideo_request (js ''today'')) None"
      "js ''today''" "\<lparr>response_text = None\<rparr>" parse_nothing "js ''today''" None]
    absent_response_text [of "text_unless (analyzeLifeProfile_request (js ''today'')) (Some [])"
      "js ''today''" "\<lparr>response_text = Some []\<rparr>" parse_nothing "js ''today''" None]
    absent_response_text [of no_text_provider
      "js ''today''" "\<lparr>response_text = None\<rparr>" parse_nothing "js ''today''" None]
  by (simp add: text_unless_def no_text_provider_def)

text \<open>
  C7. For every prompt passed to \<open>generateCinematicMemory\<close>, with or without an image, the
  prompt of the request sent to the video provider is capped at 400 characters: it is the
  prompt itself when its length is at most 400 and its first 400 characters otherwise.
\<close>

theorem generateCinematicMemory_prompt_capped:
  "vr_prompt (generateVideos_request prompt base64Image)
     = (if length prompt \<le> 400 then prompt else take 400 prompt)
   \<and> length (vr_prompt (generateVideos_request prompt base64Image)) \<le> 400"
  by (auto simp: generateVideos_request_def cleanPrompt_def substring_0 split: option.splits)

section \<open>Properties of the App component\<close>

text \<open>
  C8 (as the claim states it, refuted). The claim has the import drop every photo that is
  not a string, so that \<open>images\<close> holds exactly the string elements of \<open>photos\<close>. For
  \<open>photos = [1, "a"]\<close> the entry's images are \<open>["", "a"]\<close>: the number is replaced by the
  empty string, not dropped.
\<close>

theorem formatEntry_placeholder_counterexample:
  "formatEntry (js ''u1'') (js ''now'') (JObj [(js ''photos'', JArr [JNum 1, JStr (js ''a'')])])
     = Inr \<lparr>entry_id = js ''u1'', entry_date = JStr (js ''now''), entry_content = JStr [],
            entry_images = [[], js ''a''], entry_mood = None, entry_tags = JArr []\<rparr>
   \<and> [[], js ''a''] \<noteq> [js ''a'']"
  by (simp add: formatEntry_def andThen_def or_else_def js_def)

text \<open>
  C8 (amended). For every imported raw entry whose \<open>photos\<close> field is a list, the
  normalised entry's \<open>images\<close> has one element for each element of \<open>photos\<close>, in order: the
  photo itself when it is a string and the empty string when it is anything else (null, a
  boolean, a number, a list or an object). Nothing is dropped and no warning is reported.
\<close>

theorem formatEntry_images:
  assumes "get_prop raw ''photos'' = Some (JArr ps)"
  shows "\<exists>e. formatEntry uuid now raw = Inr e
          \<and> entry_images e =
              map (\<lambda>p. case p of
                         JStr s \<Rightarrow> s
                       | JNull \<Rightarrow> [] | JBool b \<Rightarrow> [] | JNum x \<Rightarrow> []
                       | JArr xs \<Rightarrow> [] | JObj kvs \<Rightarrow> []) ps
          \<and> length (entry_images e) = length ps"
proof -
  from assms obtain kvs where "raw = JObj kvs"
    by (cases raw) simp_all
  moreover have "photo_string p =
      (case p of JStr s \<Rightarrow> s | JNull \<Rightarrow> [] | JBool b \<Rightarrow> [] | JNum x \<Rightarrow> []
               | JArr xs \<Rightarrow> [] | JObj kvs \<Rightarrow> [])" for p
    by (cases p) simp_all
  ultimately show ?thesis
    using assms by (simp add: formatEntry_def andThen_def)
qed

text \<open>An entry with the photos \<open>["p", null, true, 7, [], {}]\<close>.\<close>

theorem formatEntry_images_witness:
  "\<exists>e. formatEntry (js ''u2'') (js ''now'')
          (JObj [(js ''text'', JStr (js ''hi'')),
                 (js ''photos'', JArr [JStr (js ''p''), JNull, JBool True, JNum 7, JArr [],
                                      JObj []])])
        = Inr e
      \<and> entry_images e = [js ''p'', [], [], [], [], []]
      \<and> length (entry_images e) = 6"
proof -
  have g: "get_prop (JObj [(js ''text'', JStr (js ''hi'')),
              (js ''photos'', JArr [JStr (js ''p''), JNull, JBool True, JNum 7, JArr [],
                                   JObj []])]) ''photos''
      = Some (JArr [JStr (js ''p''), JNull, JBool True, JNum 7, JArr [], JObj []])"
    by (simp add: js_def)
  show ?thesis
    using formatEntry_images [OF g, of "js ''u2''" "js ''now''"] by auto
qed

text \<open>
  C10. For every entry id and every duplicate-free \<open>selectedIds\<close>, \<open>toggleSelection\<close> removes
  the id when it is present (the other ids keep their order) and appends it at the end
  otherwise; so a toggle keeps \<open>selectedIds\<close> duplicate-free, and toggling twice an id that
  was not selected restores the list.
\<close>

theorem toggleSelection_distinct:
  assumes "distinct (selectedIds app)"
  shows "(eid \<in> set (selectedIds app) \<longrightarrow>
            selectedIds (toggleSelection app eid) = remove1 eid (selectedIds app)
          \<and> eid \<notin> set (selectedIds (toggleSelection app eid)))
       \<and> (eid \<notin> set (selectedIds app) \<longrightarrow>
            selectedIds (toggleSelection app eid) = selectedIds app @ [eid])
       \<and> distinct (selectedIds (toggleSelection app eid))
       \<and> (eid \<notin> set (selectedIds app) \<longrightarrow>
            selectedIds (toggleSelection (toggleSelection app eid) eid) = selectedIds app)"
proof -
  have f: "filter (\<lambda>sid. sid \<noteq> eid) (selectedIds app) = remove1 eid (selectedIds app)"
    using assms by (simp add: distinct_remove1_removeAll removeAll_filter_not_eq) metis
  have g: "eid \<notin> set xs \<Longrightarrow> filter (\<lambda>sid. sid \<noteq> eid) xs = xs" for xs :: "jsstring list"
    by (induction xs) auto
  show ?thesis
    using assms by (auto simp: toggleSelection_def f g remove1_idem)
qed

theorem toggleSelection_distinct_witness:
  "selectedIds (toggleSelection
       \<lparr>entries = [], view = TIMELINE, selectedIds = [js ''a'', js ''b''],
        isImporting = False, isSelectionMode = True\<rparr> (js ''a'')) = [js ''b'']
   \<and> selectedIds (toggleSelection
       \<lparr>entries = [], view = TIMELINE, selectedIds = [js ''a'', js ''b''],
        isImporting = False, isSelectionMode = True\<rparr> (js ''c''))
       = [js ''a'', js ''b'', js ''c'']"
  using toggleSelection_distinct [of "\<lparr>entries = [], view = TIMELINE,
        selectedIds = [js ''a'', js ''b''], isImporting = False, isSelectionMode = True\<rparr>" "js ''a''"]
    toggleSelection_distinct [of "\<lparr>entries = [], view = TIMELINE,
        selectedIds = [js ''a'', js ''b''], isImporting = False, isSelectionMode = True\<rparr>" "js ''c''"]
  by (simp add: js_def)

end
